theory Spec2Isabelle
  imports Main "HOL-Library.Char_ord" "HOL-Library.List_Lexorder" "HOL-Library.Multiset"
begin

section \<open>Session log analysis (scripts/analyze-session.py)\<close>

text \<open>
  The script reads a session log line by line, decodes each line with \<^verbatim>\<open>json.loads\<close>
  and walks the decoded values twice. The embedding follows the script function by
  function. What belongs to the Python runtime and not to the script is kept outside:
  \<^item> the decoder \<^verbatim>\<open>json.loads\<close> is a parameter \<open>loads\<close>; \<open>None\<close> is
    \<^verbatim>\<open>JSONDecodeError\<close>;
  \<^item> the length of \<^verbatim>\<open>json.dumps\<close> of a value is a parameter \<open>dumps_len\<close>;
  \<^item> decoded values are the type \<open>json\<close> below. Python floats (JSON numbers written
    with a fraction or an exponent, \<^verbatim>\<open>NaN\<close>, \<^verbatim>\<open>Infinity\<close>) have no constructor:
    IEEE arithmetic is not modelled, and every statement below is about logs whose
    decoded lines hold no such number;
  \<^item> a decoded object is the association list of its entries, read with \<open>map_of\<close>
    (a decoded dict holds one entry for each key);
  \<^item> a Python \<^verbatim>\<open>str\<close> is a \<open>string\<close>, one \<open>char\<close> per code point, ordered by code point;
  \<^item> a Python \<^verbatim>\<open>int\<close> is an \<open>int\<close>; \<^verbatim>\<open>None\<close> is \<open>JNull\<close>, as \<^verbatim>\<open>json.loads\<close> gives it.
  Every exception the script can raise on decoded values is a value of \<open>error\<close>.
\<close>

subsection \<open>Decoded values and the runtime operations the script applies to them\<close>

datatype json =
    JNull
  | JBool bool
  | JInt int
  | JStr string
  | JList "json list"
  | JObj "(string \<times> json) list"

datatype error = AttributeError | TypeError | KeyError | ZeroDivisionError

text \<open>Sequencing of fallible steps: the first exception ends the run.\<close>

definition and_then :: "error + 'a \<Rightarrow> ('a \<Rightarrow> error + 'b) \<Rightarrow> error + 'b" where
  "and_then r f = (case r of Inl e \<Rightarrow> Inl e | Inr v \<Rightarrow> f v)"

text \<open>Truth value of a decoded value (\<^verbatim>\<open>not x\<close>, \<^verbatim>\<open>if x:\<close>).\<close>

fun truthy :: "json \<Rightarrow> bool" where
  "truthy JNull = False"
| "truthy (JBool b) = b"
| "truthy (JInt i) = (i \<noteq> 0)"
| "truthy (JStr s) = (s \<noteq> [])"
| "truthy (JList xs) = (xs \<noteq> [])"
| "truthy (JObj kvs) = (kvs \<noteq> [])"

text \<open>
  Dictionary keys. Python hashes the key: a list or a dict is unhashable (TypeError),
  and \<^verbatim>\<open>True\<close>/\<^verbatim>\<open>False\<close> are the same keys as \<^verbatim>\<open>1\<close>/\<^verbatim>\<open>0\<close>.
\<close>

datatype pykey = KNone | KInt int | KStr string

fun hash_key :: "json \<Rightarrow> error + pykey" where
  "hash_key JNull = Inr KNone"
| "hash_key (JBool b) = Inr (KInt (if b then 1 else 0))"
| "hash_key (JInt i) = Inr (KInt i)"
| "hash_key (JStr s) = Inr (KStr s)"
| "hash_key (JList xs) = Inl TypeError"
| "hash_key (JObj kvs) = Inl TypeError"

text \<open>\<^verbatim>\<open>0 + x\<close> for a decoded \<open>x\<close>: only \<^verbatim>\<open>int\<close> and \<^verbatim>\<open>bool\<close> add to an \<^verbatim>\<open>int\<close>.\<close>

fun as_int :: "json \<Rightarrow> error + int" where
  "as_int (JInt i) = Inr i"
| "as_int (JBool b) = Inr (if b then 1 else 0)"
| "as_int _ = Inl TypeError"

text \<open>\<^verbatim>\<open>x.get(k, d)\<close>: only a dict has \<^verbatim>\<open>get\<close>.\<close>

fun get_default :: "json \<Rightarrow> string \<Rightarrow> json \<Rightarrow> error + json" where
  "get_default (JObj kvs) k d = Inr (case map_of kvs k of None \<Rightarrow> d | Some v \<Rightarrow> v)"
| "get_default _ k d = Inl AttributeError"

text \<open>\<^verbatim>\<open>for block in x\<close>: a str yields its characters, a dict its keys.\<close>

fun iterate :: "json \<Rightarrow> error + json list" where
  "iterate (JList xs) = Inr xs"
| "iterate (JStr s) = Inr (map (\<lambda>c. JStr [c]) s)"
| "iterate (JObj kvs) = Inr (map (\<lambda>kv. JStr (fst kv)) kvs)"
| "iterate _ = Inl TypeError"

text \<open>Python's \<^verbatim>\<open>==\<close> on decoded values (it never raises).\<close>

fun py_eq :: "json \<Rightarrow> json \<Rightarrow> bool" where
  "py_eq JNull JNull = True"
| "py_eq (JBool a) (JBool b) = (a = b)"
| "py_eq (JBool a) (JInt b) = ((if a then 1 else 0) = b)"
| "py_eq (JInt a) (JBool b) = (a = (if b then 1 else 0))"
| "py_eq (JInt a) (JInt b) = (a = b)"
| "py_eq (JStr a) (JStr b) = (a = b)"
| "py_eq (JList xs) (JList ys) = list_all2 py_eq xs ys"
| "py_eq (JObj a) (JObj b) =
     (list_all (\<lambda>(k, v). map_of a k = Some v \<longrightarrow>
                  (case map_of b k of None \<Rightarrow> False | Some w \<Rightarrow> py_eq v w)) a
      \<and> list_all (\<lambda>(k, w). map_of a k \<noteq> None) b)"
| "py_eq _ _ = False"

text \<open>
  Python's \<^verbatim>\<open>a < b\<close>: strings by code point, numbers by value, lists at the first
  position where they differ; every other pair raises TypeError.
\<close>

fun py_lt :: "json \<Rightarrow> json \<Rightarrow> error + bool"
  and list_lt :: "json list \<Rightarrow> json list \<Rightarrow> error + bool" where
  "py_lt (JStr a) (JStr b) = Inr (a < b)"
| "py_lt (JInt a) (JInt b) = Inr (a < b)"
| "py_lt (JInt a) (JBool b) = Inr (a < (if b then 1 else 0))"
| "py_lt (JBool a) (JInt b) = Inr ((if a then 1 else 0) < b)"
| "py_lt (JBool a) (JBool b) = Inr (\<not> a \<and> b)"
| "py_lt (JList xs) (JList ys) = list_lt xs ys"
| "py_lt _ _ = Inl TypeError"
| "list_lt [] [] = Inr False"
| "list_lt [] (y # ys) = Inr True"
| "list_lt (x # xs) [] = Inr False"
| "list_lt (x # xs) (y # ys) = (if py_eq x y then list_lt xs ys else py_lt x y)"

subsection \<open>Dictionaries of the statistics\<close>

text \<open>
  A dict is an association list in insertion order, one entry per key.
  \<open>dict_set\<close> is \<^verbatim>\<open>d[k] = v\<close>. \<open>dict_add\<close> is \<^verbatim>\<open>d[k] += n\<close> on a plain dict
  (KeyError on a missing key), \<open>counter_add\<close> the same on a \<^verbatim>\<open>defaultdict(int)\<close>.
\<close>

fun dict_set :: "'k \<Rightarrow> 'v \<Rightarrow> ('k \<times> 'v) list \<Rightarrow> ('k \<times> 'v) list" where
  "dict_set k v [] = [(k, v)]"
| "dict_set k v (p # ps) = (if fst p = k then (k, v) # ps else p # dict_set k v ps)"

definition dict_add :: "'k \<Rightarrow> int \<Rightarrow> ('k \<times> int) list \<Rightarrow> error + ('k \<times> int) list" where
  "dict_add k n d = (case map_of d k of None \<Rightarrow> Inl KeyError | Some x \<Rightarrow> Inr (dict_set k (x + n) d))"

text \<open>A \<^verbatim>\<open>for\<close> loop whose body may raise: the state is threaded through the items in order.\<close>

fun for_each :: "('a \<Rightarrow> 's \<Rightarrow> error + 's) \<Rightarrow> 'a list \<Rightarrow> 's \<Rightarrow> error + 's" where
  "for_each body [] s = Inr s"
| "for_each body (x # xs) s = (case body x s of Inl e \<Rightarrow> Inl e | Inr s' \<Rightarrow> for_each body xs s')"

definition counter_add :: "'k \<Rightarrow> int \<Rightarrow> ('k \<times> int) list \<Rightarrow> ('k \<times> int) list" where
  "counter_add k n d = dict_set k ((case map_of d k of None \<Rightarrow> 0 | Some x \<Rightarrow> x) + n) d"

record size_entry =
  count :: int
  total_chars :: int

record model_entry =
  m_input :: int
  m_output :: int
  m_calls :: int

text \<open>\<^verbatim>\<open>defaultdict(lambda: {'count': 0, 'total_chars': 0})\<close> and the one of the models
  (fields \<^verbatim>\<open>input\<close>, \<^verbatim>\<open>output\<close>, \<^verbatim>\<open>calls\<close>).\<close>

definition size_get :: "(pykey \<times> size_entry) list \<Rightarrow> pykey \<Rightarrow> size_entry" where
  "size_get d k = (case map_of d k of None \<Rightarrow> \<lparr>count = 0, total_chars = 0\<rparr> | Some e \<Rightarrow> e)"

definition model_get :: "(pykey \<times> model_entry) list \<Rightarrow> pykey \<Rightarrow> model_entry" where
  "model_get d k = (case map_of d k of None \<Rightarrow> \<lparr>m_input = 0, m_output = 0, m_calls = 0\<rparr> | Some e \<Rightarrow> e)"

record stats =
  session_id :: json
  file_path :: string
  messages :: "(string \<times> int) list"
  tool_calls :: "(pykey \<times> int) list"
  tool_result_sizes :: "(pykey \<times> size_entry) list"
  tokens :: "(string \<times> int) list"
  models :: "(pykey \<times> model_entry) list"
  timestamps_first :: json
  timestamps_last :: json

definition init_stats :: "string \<Rightarrow> stats" where
  "init_stats jsonl_path =
     \<lparr>session_id = JNull,
      file_path = jsonl_path,
      messages = [(''user'', 0), (''assistant'', 0), (''system'', 0)],
      tool_calls = [],
      tool_result_sizes = [],
      tokens = [(''input'', 0), (''output'', 0), (''cache_read'', 0), (''cache_creation'', 0)],
      models = [],
      timestamps_first = JNull,
      timestamps_last = JNull\<rparr>"

subsection \<open>analyze_session, first pass (lines 41 to 91)\<close>

text \<open>The invocation index \<^verbatim>\<open>tool_names\<close>: identifier to tool name.\<close>

type_synonym index = "(pykey \<times> json) list"

text \<open>Lines 51 to 53: \<^verbatim>\<open>if 'sessionId' in obj and not stats['session_id']\<close>.\<close>

definition track_session_id :: "(string \<times> json) list \<Rightarrow> stats \<Rightarrow> stats" where
  "track_session_id obj st =
     (case map_of obj ''sessionId'' of
        None \<Rightarrow> st
      | Some sid \<Rightarrow> if \<not> truthy (session_id st) then st\<lparr>session_id := sid\<rparr> else st)"

text \<open>Lines 55 to 61. \<^verbatim>\<open>ts > last\<close> is \<^verbatim>\<open>last < ts\<close> on these values.\<close>

definition track_timestamps :: "(string \<times> json) list \<Rightarrow> stats \<Rightarrow> error + stats" where
  "track_timestamps obj st =
     (case map_of obj ''timestamp'' of
        None \<Rightarrow> Inr st
      | Some ts \<Rightarrow>
          and_then (if timestamps_first st = JNull then Inr True else py_lt ts (timestamps_first st))
            (\<lambda>earlier.
               let st1 = (if earlier then st\<lparr>timestamps_first := ts\<rparr> else st) in
               and_then (if timestamps_last st1 = JNull then Inr True else py_lt (timestamps_last st1) ts)
                 (\<lambda>later. Inr (if later then st1\<lparr>timestamps_last := ts\<rparr> else st1))))"

text \<open>Lines 63 to 65.\<close>

definition count_message :: "json \<Rightarrow> stats \<Rightarrow> error + stats" where
  "count_message record_type st =
     (case record_type of
        JStr t \<Rightarrow>
          if t \<in> set [''user'', ''assistant'', ''system'']
          then and_then (dict_add t 1 (messages st)) (\<lambda>m. Inr (st\<lparr>messages := m\<rparr>))
          else Inr st
      | _ \<Rightarrow> Inr st)"

text \<open>Lines 73 to 76, one counter: \<^verbatim>\<open>stats['tokens'][field] += usage.get(key, 0)\<close>.\<close>

definition add_token :: "string \<Rightarrow> json \<Rightarrow> string \<Rightarrow> stats \<Rightarrow> error + stats" where
  "add_token field usage key st =
     and_then (get_default usage key (JInt 0)) (\<lambda>v.
     and_then (as_int v) (\<lambda>n.
     and_then (dict_add field n (tokens st)) (\<lambda>t. Inr (st\<lparr>tokens := t\<rparr>))))"

text \<open>Lines 79 to 82: the entry of the model gets the two counters and one call.\<close>

definition track_model :: "json \<Rightarrow> json \<Rightarrow> stats \<Rightarrow> error + stats" where
  "track_model msg usage st =
     and_then (get_default msg ''model'' (JStr ''unknown'')) (\<lambda>model.
     and_then (hash_key model) (\<lambda>k.
     and_then (and_then (get_default usage ''input_tokens'' (JInt 0)) as_int) (\<lambda>i.
     and_then (and_then (get_default usage ''output_tokens'' (JInt 0)) as_int) (\<lambda>out.
       let e = model_get (models st) k in
       Inr (st\<lparr>models :=
              dict_set k \<lparr>m_input = m_input e + i, m_output = m_output e + out,
                          m_calls = m_calls e + 1\<rparr> (models st)\<rparr>)))))"

text \<open>Lines 86 to 91, the body of the loop over the content blocks.\<close>

definition tool_use_block :: "json \<Rightarrow> stats \<times> index \<Rightarrow> error + stats \<times> index" where
  "tool_use_block block s =
     (case s of (st, tool_names) \<Rightarrow>
      (case block of
         JObj b \<Rightarrow>
           if map_of b ''type'' = Some (JStr ''tool_use'') then
             let tool_name = (case map_of b ''name'' of None \<Rightarrow> JStr ''unknown'' | Some n \<Rightarrow> n);
                 tool_id = (case map_of b ''id'' of None \<Rightarrow> JNull | Some i \<Rightarrow> i)
             in and_then (hash_key tool_name) (\<lambda>k.
                  let st1 = st\<lparr>tool_calls := counter_add k 1 (tool_calls st)\<rparr> in
                  if truthy tool_id
                  then and_then (hash_key tool_id) (\<lambda>i. Inr (st1, dict_set i tool_name tool_names))
                  else Inr (st1, tool_names))
           else Inr s
       | _ \<Rightarrow> Inr s))"

text \<open>Lines 68 to 91.\<close>

definition assistant_message :: "json \<Rightarrow> stats \<times> index \<Rightarrow> error + stats \<times> index" where
  "assistant_message msg s =
     (case s of (st, tool_names) \<Rightarrow>
      and_then (get_default msg ''usage'' (JObj [])) (\<lambda>usage.
      and_then (add_token ''input'' usage ''input_tokens'' st) (\<lambda>st1.
      and_then (add_token ''output'' usage ''output_tokens'' st1) (\<lambda>st2.
      and_then (add_token ''cache_read'' usage ''cache_read_input_tokens'' st2) (\<lambda>st3.
      and_then (add_token ''cache_creation'' usage ''cache_creation_input_tokens'' st3) (\<lambda>st4.
      and_then (track_model msg usage st4) (\<lambda>st5.
      and_then (get_default msg ''content'' (JList [])) (\<lambda>content.
      and_then (iterate content) (\<lambda>blocks.
        for_each tool_use_block blocks (st5, tool_names))))))))))"

text \<open>Lines 49 to 91, one decoded line. \<^verbatim>\<open>obj.get\<close> raises unless the line is an object.\<close>

definition first_pass_record :: "json \<Rightarrow> stats \<times> index \<Rightarrow> error + stats \<times> index" where
  "first_pass_record obj s =
     (case s of (st, tool_names) \<Rightarrow>
      (case obj of
         JObj ob \<Rightarrow>
           let record_type = (case map_of ob ''type'' of None \<Rightarrow> JNull | Some t \<Rightarrow> t) in
           and_then (track_timestamps ob (track_session_id ob st)) (\<lambda>st2.
           and_then (count_message record_type st2) (\<lambda>st3.
             if record_type = JStr ''assistant'' then
               (case map_of ob ''message'' of
                  None \<Rightarrow> Inr (st3, tool_names)
                | Some msg \<Rightarrow> assistant_message msg (st3, tool_names))
             else Inr (st3, tool_names)))
       | _ \<Rightarrow> Inl AttributeError))"

text \<open>Lines 43 to 47: a line that does not decode is skipped.\<close>

definition first_pass_line ::
  "('l \<Rightarrow> json option) \<Rightarrow> 'l \<Rightarrow> stats \<times> index \<Rightarrow> error + stats \<times> index" where
  "first_pass_line loads line s =
     (case loads line of None \<Rightarrow> Inr s | Some obj \<Rightarrow> first_pass_record obj s)"

subsection \<open>analyze_session, second pass (lines 93 to 118)\<close>

text \<open>Lines 110 to 115.\<close>

definition content_size :: "(json \<Rightarrow> int) \<Rightarrow> json \<Rightarrow> int" where
  "content_size dumps_len content =
     (case content of
        JStr s \<Rightarrow> int (length s)
      | JList bs \<Rightarrow> sum_list (map dumps_len bs)
      | _ \<Rightarrow> dumps_len content)"

text \<open>Lines 104 to 118, the body of the loop over the content blocks.\<close>

definition tool_result_block ::
  "(json \<Rightarrow> int) \<Rightarrow> index \<Rightarrow> json \<Rightarrow> stats \<Rightarrow> error + stats" where
  "tool_result_block dumps_len tool_names block st =
     (case block of
        JObj b \<Rightarrow>
          if map_of b ''type'' = Some (JStr ''tool_result'') then
            let tool_id = (case map_of b ''tool_use_id'' of None \<Rightarrow> JNull | Some i \<Rightarrow> i) in
            and_then (hash_key tool_id) (\<lambda>i.
              let tool_name = (case map_of tool_names i of None \<Rightarrow> JStr ''unknown'' | Some n \<Rightarrow> n);
                  content = (case map_of b ''content'' of None \<Rightarrow> JStr [] | Some c \<Rightarrow> c);
                  n = content_size dumps_len content
              in and_then (hash_key tool_name) (\<lambda>k.
                   let e = size_get (tool_result_sizes st) k in
                   Inr (st\<lparr>tool_result_sizes :=
                          dict_set k \<lparr>count = count e + 1, total_chars = total_chars e + n\<rparr>
                            (tool_result_sizes st)\<rparr>)))
          else Inr st
      | _ \<Rightarrow> Inr st)"

text \<open>Lines 100 to 118, one decoded line.\<close>

definition second_pass_record ::
  "(json \<Rightarrow> int) \<Rightarrow> index \<Rightarrow> json \<Rightarrow> stats \<Rightarrow> error + stats" where
  "second_pass_record dumps_len tool_names obj st =
     (case obj of
        JObj ob \<Rightarrow>
          if map_of ob ''type'' = Some (JStr ''user'') then
            (case map_of ob ''message'' of
               None \<Rightarrow> Inr st
             | Some msg \<Rightarrow>
                 and_then (get_default msg ''content'' JNull) (\<lambda>content.
                   case content of
                     JList blocks \<Rightarrow> for_each (tool_result_block dumps_len tool_names) blocks st
                   | _ \<Rightarrow> Inr st))
          else Inr st
      | _ \<Rightarrow> Inl AttributeError)"

definition second_pass_line ::
  "('l \<Rightarrow> json option) \<Rightarrow> (json \<Rightarrow> int) \<Rightarrow> index \<Rightarrow> 'l \<Rightarrow> stats \<Rightarrow> error + stats" where
  "second_pass_line loads dumps_len tool_names line st =
     (case loads line of None \<Rightarrow> Inr st | Some obj \<Rightarrow> second_pass_record dumps_len tool_names obj st)"


subsection \<open>analyze_session (lines 19 to 125)\<close>

text \<open>
  \<open>lines\<close> is what \<^verbatim>\<open>f.readlines()\<close> returned. The first pass runs over all of them
  before the second starts.
\<close>

definition first_pass ::
  "('l \<Rightarrow> json option) \<Rightarrow> string \<Rightarrow> 'l list \<Rightarrow> error + stats \<times> index" where
  "first_pass loads jsonl_path lines =
     for_each (first_pass_line loads) lines (init_stats jsonl_path, [])"

definition analyze_session ::
  "('l \<Rightarrow> json option) \<Rightarrow> (json \<Rightarrow> int) \<Rightarrow> string \<Rightarrow> 'l list \<Rightarrow> error + stats" where
  "analyze_session loads dumps_len jsonl_path lines =
     and_then (first_pass loads jsonl_path lines) (\<lambda>(st, tool_names).
       for_each (second_pass_line loads dumps_len tool_names) lines st)"

subsection \<open>print_summary: the totals (lines 202 to 218) and the size report (lines 243 to 260)\<close>

record totals =
  total_messages :: "(string \<times> int) list"
  total_tokens :: "(string \<times> int) list"
  total_tool_calls :: "(pykey \<times> int) list"
  total_tool_result_sizes :: "(pykey \<times> size_entry) list"


text \<open>Lines 216 to 218 (and 303 to 305), the body of the loop over the size aggregates.\<close>

definition add_sizes ::
  "pykey \<times> size_entry \<Rightarrow> (pykey \<times> size_entry) list \<Rightarrow> (pykey \<times> size_entry) list" where
  "add_sizes item d =
     (case item of (tool, data) \<Rightarrow>
        let e = size_get d tool in
        dict_set tool \<lparr>count = count e + count data,
                        total_chars = total_chars e + total_chars data\<rparr> d)"

definition add_item :: "'k \<times> int \<Rightarrow> ('k \<times> int) list \<Rightarrow> error + ('k \<times> int) list" where
  "add_item item d = (case item of (k, v) \<Rightarrow> dict_add k v d)"

definition add_count :: "'k \<times> int \<Rightarrow> ('k \<times> int) list \<Rightarrow> ('k \<times> int) list" where
  "add_count item d = (case item of (tool, c) \<Rightarrow> counter_add tool c d)"





definition read_tools :: "pykey list" where
  "read_tools = [KStr ''Read'', KStr ''Glob'', KStr ''Grep'']"

text \<open>Line 246 (and 319): the characters of the read and search tools.\<close>

definition read_search_chars_of :: "(pykey \<times> size_entry) list \<Rightarrow> int" where
  "read_search_chars_of sizes =
     sum_list (map (\<lambda>t. case map_of sizes t of None \<Rightarrow> 0 | Some d \<Rightarrow> total_chars d) read_tools)"

text \<open>Line 247 (and 320).\<close>

definition total_chars_of :: "(pykey \<times> size_entry) list \<Rightarrow> int" where
  "total_chars_of sizes = sum_list (map (\<lambda>kv. total_chars (snd kv)) sizes)"






subsection \<open>export_snapshot (lines 282 to 332)\<close>

definition snapshot_totals :: totals where
  "snapshot_totals =
     \<lparr>total_messages = [(''user'', 0), (''assistant'', 0)],
      total_tokens = [(''input'', 0), (''output'', 0), (''cache_read'', 0), (''cache_creation'', 0)],
      total_tool_calls = [],
      total_tool_result_sizes = []\<rparr>"

text \<open>Lines 297 and 298: \<^verbatim>\<open>if k in totals['messages']: totals['messages'][k] += v\<close>.\<close>

definition add_known :: "'k \<times> int \<Rightarrow> ('k \<times> int) list \<Rightarrow> ('k \<times> int) list" where
  "add_known item d =
     (case item of (k, v) \<Rightarrow>
        (case map_of d k of None \<Rightarrow> d | Some x \<Rightarrow> dict_set k (x + v) d))"

text \<open>Lines 296 to 305, the body of the loop over the sessions.\<close>

definition snapshot_add :: "stats \<Rightarrow> totals \<Rightarrow> error + totals" where
  "snapshot_add st t =
     and_then (for_each add_item (tokens st) (total_tokens t)) (\<lambda>tk.
       Inr \<lparr>total_messages = fold add_known (messages st) (total_messages t),
            total_tokens = tk,
            total_tool_calls = fold add_count (tool_calls st) (total_tool_calls t),
            total_tool_result_sizes =
              fold add_sizes (tool_result_sizes st) (total_tool_result_sizes t)\<rparr>)"

record snapshot_summary =
  read_search_calls :: int
  read_search_chars :: int
  total_tool_result_chars :: int

record snapshot =
  timestamp :: string
  grafema_mcp_enabled :: bool
  sessions_count :: int
  snap_messages :: "(string \<times> int) list"
  snap_tokens :: "(string \<times> int) list"
  snap_tool_calls :: "(pykey \<times> int) list"
  snap_tool_result_sizes :: "(pykey \<times> size_entry) list"
  summary :: snapshot_summary
  snap_note :: "string option"

text \<open>
  Lines 308 to 325. \<open>now\<close> is what \<^verbatim>\<open>datetime.now(timezone.utc).isoformat()\<close> returned;
  the key \<^verbatim>\<open>note\<close> is present only for a non-empty note.
\<close>

definition make_snapshot ::
  "string \<Rightarrow> stats list \<Rightarrow> totals \<Rightarrow> bool \<Rightarrow> string option \<Rightarrow> snapshot" where
  "make_snapshot now all_stats t grafema_mcp note_arg =
     \<lparr>timestamp = now,
      grafema_mcp_enabled = grafema_mcp,
      sessions_count = int (length all_stats),
      snap_messages = total_messages t,
      snap_tokens = total_tokens t,
      snap_tool_calls = total_tool_calls t,
      snap_tool_result_sizes = total_tool_result_sizes t,
      summary =
        \<lparr>read_search_calls =
           sum_list (map (\<lambda>tl. case map_of (total_tool_calls t) tl of None \<Rightarrow> 0 | Some c \<Rightarrow> c)
                      read_tools),
         read_search_chars = read_search_chars_of (total_tool_result_sizes t),
         total_tool_result_chars = total_chars_of (total_tool_result_sizes t)\<rparr>,
      snap_note = (case note_arg of None \<Rightarrow> None | Some n \<Rightarrow> if n \<noteq> [] then Some n else None)\<rparr>"

text \<open>
  The file system: the content of each existing path. Lines 328 to 330: mode
  \<^verbatim>\<open>'a'\<close> writes at the end of the file, mode \<^verbatim>\<open>'w'\<close> empties it first.
  Failures of the operating system (permissions, a full disk) are not modelled.
\<close>

type_synonym filesystem = "string \<Rightarrow> string option"

datatype open_mode = Mode_a | Mode_w

definition write_text :: "filesystem \<Rightarrow> string \<Rightarrow> open_mode \<Rightarrow> string \<Rightarrow> filesystem" where
  "write_text fs path mode data =
     (case mode of
        Mode_a \<Rightarrow> fs(path \<mapsto> (case fs path of None \<Rightarrow> [] | Some old \<Rightarrow> old) @ data)
      | Mode_w \<Rightarrow> fs(path \<mapsto> data))"

text \<open>\<open>dumps\<close> is \<^verbatim>\<open>json.dumps\<close> on the snapshot.\<close>

definition export_snapshot ::
  "(snapshot \<Rightarrow> string) \<Rightarrow> string \<Rightarrow> filesystem \<Rightarrow> stats list \<Rightarrow> string \<Rightarrow> bool \<Rightarrow> bool
     \<Rightarrow> string option \<Rightarrow> error + filesystem \<times> snapshot" where
  "export_snapshot dumps now fs all_stats output_path append_arg grafema_mcp note_arg =
     and_then (for_each snapshot_add all_stats snapshot_totals) (\<lambda>t.
       let snap = make_snapshot now all_stats t grafema_mcp note_arg;
           mode = (if append_arg \<and> fs output_path \<noteq> None then Mode_a else Mode_w)
       in Inr (write_text fs output_path mode (dumps snap @ [CHR 0x0A]), snap))"

subsection \<open>What a log holds, in file order\<close>

text \<open>The \<^verbatim>\<open>sessionId\<close> of a line, when the line decodes to an object that has the key.\<close>

definition session_id_of :: "('l \<Rightarrow> json option) \<Rightarrow> 'l \<Rightarrow> json option" where
  "session_id_of loads line =
     (case loads line of Some (JObj ob) \<Rightarrow> map_of ob ''sessionId'' | _ \<Rightarrow> None)"

definition session_ids :: "('l \<Rightarrow> json option) \<Rightarrow> 'l list \<Rightarrow> json list" where
  "session_ids loads lines = List.map_filter (session_id_of loads) lines"







text \<open>The session id after the records whose \<^verbatim>\<open>sessionId\<close> values are \<open>sids\<close>, from \<open>cur\<close>.\<close>

definition adopt :: "json list \<Rightarrow> json \<Rightarrow> json" where
  "adopt sids cur = fold (\<lambda>sid known. if truthy known then known else sid) sids cur"

text \<open>
  The sum of the values a dict of counters holds under one key, and the shape of the
  two fixed dicts of the statistics \<open>analyze_session\<close> builds.
\<close>

definition entries_sum :: "'k \<Rightarrow> ('k \<times> int) list \<Rightarrow> int" where
  "entries_sum k d = sum_list (map snd (filter (\<lambda>kv. fst kv = k) d))"

definition well_formed :: "stats \<Rightarrow> bool" where
  "well_formed st \<longleftrightarrow>
     map fst (messages st) = [''user'', ''assistant'', ''system'']
     \<and> map fst (tokens st) = [''input'', ''output'', ''cache_read'', ''cache_creation'']"

text \<open>The number of lines of a file: its newline characters.\<close>

definition newline :: char where
  "newline = CHR 0x0A"

definition line_count :: "string \<Rightarrow> nat" where
  "line_count content = length (filter (\<lambda>c. c = newline) content)"


text \<open>
  The \<^verbatim>\<open>tool_use\<close> blocks of the assistant records, in file order: the name and the
  identifier the first pass reads from each (lines 87 and 88), and the bindings
  the blocks with a truthy, hashable identifier put into the index.
\<close>

definition block_tool_use :: "json \<Rightarrow> (json \<times> json) list" where
  "block_tool_use block =
     (case block of
        JObj b \<Rightarrow>
          if map_of b ''type'' = Some (JStr ''tool_use'')
          then [(case map_of b ''name'' of None \<Rightarrow> JStr ''unknown'' | Some n \<Rightarrow> n,
                 case map_of b ''id'' of None \<Rightarrow> JNull | Some i \<Rightarrow> i)]
          else []
      | _ \<Rightarrow> [])"

definition record_tool_uses :: "json \<Rightarrow> (json \<times> json) list" where
  "record_tool_uses obj =
     (case obj of
        JObj ob \<Rightarrow>
          if map_of ob ''type'' = Some (JStr ''assistant'') then
            (case map_of ob ''message'' of
               None \<Rightarrow> []
             | Some msg \<Rightarrow>
                 (case and_then (get_default msg ''content'' (JList [])) iterate of
                    Inl e \<Rightarrow> []
                  | Inr blocks \<Rightarrow> concat (map block_tool_use blocks)))
          else []
      | _ \<Rightarrow> [])"

definition tool_uses :: "('l \<Rightarrow> json option) \<Rightarrow> 'l list \<Rightarrow> (json \<times> json) list" where
  "tool_uses loads lines =
     concat (map (\<lambda>l. case loads l of None \<Rightarrow> [] | Some obj \<Rightarrow> record_tool_uses obj) lines)"

definition binding :: "json \<times> json \<Rightarrow> (pykey \<times> json) list" where
  "binding u =
     (if truthy (snd u) then (case hash_key (snd u) of Inr k \<Rightarrow> [(k, fst u)] | Inl e \<Rightarrow> []) else [])"

definition recorded :: "(json \<times> json) list \<Rightarrow> (pykey \<times> json) list" where
  "recorded uses = concat (map binding uses)"

definition named :: "pykey \<Rightarrow> json \<times> json \<Rightarrow> bool" where
  "named k u = (hash_key (fst u) = Inr k)"

text \<open>\<^verbatim>\<open>d.get(k, 0)\<close> on a dict of counters.\<close>

definition counter_get :: "('k \<times> int) list \<Rightarrow> 'k \<Rightarrow> int" where
  "counter_get d k = (case map_of d k of None \<Rightarrow> 0 | Some c \<Rightarrow> c)"

text \<open>
  The \<^verbatim>\<open>tool_result\<close> blocks of the user records, in file order: the identifier and
  the content the second pass reads from each (lines 105 and 107), the tool name an
  index gives to an identifier (line 106), as a key, and the aggregate of the blocks
  an index attributes to one tool.
\<close>

definition block_tool_result :: "json \<Rightarrow> (json \<times> json) list" where
  "block_tool_result block =
     (case block of
        JObj b \<Rightarrow>
          if map_of b ''type'' = Some (JStr ''tool_result'')
          then [(case map_of b ''tool_use_id'' of None \<Rightarrow> JNull | Some i \<Rightarrow> i,
                 case map_of b ''content'' of None \<Rightarrow> JStr [] | Some c \<Rightarrow> c)]
          else []
      | _ \<Rightarrow> [])"

definition record_tool_results :: "json \<Rightarrow> (json \<times> json) list" where
  "record_tool_results obj =
     (case obj of
        JObj ob \<Rightarrow>
          if map_of ob ''type'' = Some (JStr ''user'') then
            (case map_of ob ''message'' of
               None \<Rightarrow> []
             | Some msg \<Rightarrow>
                 (case get_default msg ''content'' JNull of
                    Inr (JList blocks) \<Rightarrow> concat (map block_tool_result blocks)
                  | _ \<Rightarrow> []))
          else []
      | _ \<Rightarrow> [])"

definition tool_results :: "('l \<Rightarrow> json option) \<Rightarrow> 'l list \<Rightarrow> (json \<times> json) list" where
  "tool_results loads lines =
     concat (map (\<lambda>l. case loads l of None \<Rightarrow> [] | Some obj \<Rightarrow> record_tool_results obj) lines)"

definition resolve :: "index \<Rightarrow> json \<Rightarrow> error + pykey" where
  "resolve tool_names tool_id =
     and_then (hash_key tool_id) (\<lambda>i.
       hash_key (case map_of tool_names i of None \<Rightarrow> JStr ''unknown'' | Some n \<Rightarrow> n))"

definition attributed :: "index \<Rightarrow> pykey \<Rightarrow> json \<times> json \<Rightarrow> bool" where
  "attributed tool_names k r = (resolve tool_names (fst r) = Inr k)"

definition size_of_results ::
  "(json \<Rightarrow> int) \<Rightarrow> index \<Rightarrow> pykey \<Rightarrow> (json \<times> json) list \<Rightarrow> size_entry" where
  "size_of_results dumps_len tool_names k results =
     \<lparr>count = int (length (filter (attributed tool_names k) results)),
      total_chars =
        sum_list (map (\<lambda>r. content_size dumps_len (snd r)) (filter (attributed tool_names k) results))\<rparr>"

definition size_add :: "size_entry \<Rightarrow> size_entry \<Rightarrow> size_entry" where
  "size_add a b = \<lparr>count = count a + count b, total_chars = total_chars a + total_chars b\<rparr>"

text \<open>What a stretch of the first pass with the \<^verbatim>\<open>tool_use\<close> blocks \<open>uses\<close> does to the
  counters and to the index, and what it needs of the blocks to go through.\<close>

definition index_step :: "(json \<times> json) list \<Rightarrow> stats \<times> index \<Rightarrow> stats \<times> index \<Rightarrow> bool" where
  "index_step uses s s' \<longleftrightarrow>
     map_of (snd s') = map_of (rev (recorded uses) @ snd s)
     \<and> (\<forall>k. counter_get (tool_calls (fst s')) k =
              counter_get (tool_calls (fst s)) k + int (length (filter (named k) uses)))
     \<and> (\<forall>u \<in> set uses. (\<exists>k. hash_key (fst u) = Inr k)
                          \<and> (truthy (snd u) \<longrightarrow> (\<exists>k. hash_key (snd u) = Inr k)))"

text \<open>What a stretch of the second pass with the \<^verbatim>\<open>tool_result\<close> blocks \<open>results\<close> does
  to the size aggregates under the index \<open>tool_names\<close>.\<close>

definition sizes_step ::
  "(json \<Rightarrow> int) \<Rightarrow> index \<Rightarrow> (json \<times> json) list \<Rightarrow> stats \<Rightarrow> stats \<Rightarrow> bool" where
  "sizes_step dumps_len tool_names results st st' \<longleftrightarrow>
     (\<forall>k. size_get (tool_result_sizes st') k =
            size_add (size_get (tool_result_sizes st) k)
              (size_of_results dumps_len tool_names k results))
     \<and> (\<forall>r \<in> set results. \<exists>k. resolve tool_names (fst r) = Inr k)"

text \<open>
  A step that returns, a state on which the counters of the first pass find their keys
  and the running timestamps are strings, and an index whose tool names are hashable.
\<close>

definition returns :: "error + 'a \<Rightarrow> bool" where
  "returns r = (case r of Inl e \<Rightarrow> False | Inr v \<Rightarrow> True)"



subsection \<open>Concrete inputs\<close>

text \<open>
  The two records of the scenario: an assistant record with one \<^verbatim>\<open>tool_use\<close> block
  and a usage, and a user record with the \<^verbatim>\<open>tool_result\<close> block that answers it.
\<close>

definition scenario_assistant :: json where
  "scenario_assistant =
     JObj [(''type'', JStr ''assistant''),
           (''message'',
              JObj [(''usage'', JObj [(''input_tokens'', JInt 100), (''output_tokens'', JInt 50)]),
                    (''content'',
                       JList [JObj [(''type'', JStr ''tool_use''), (''name'', JStr ''Read''),
                                    (''id'', JStr ''t1'')]])])]"

definition scenario_user :: json where
  "scenario_user =
     JObj [(''type'', JStr ''user''),
           (''message'',
              JObj [(''content'',
                       JList [JObj [(''type'', JStr ''tool_result''), (''tool_use_id'', JStr ''t1''),
                                    (''content'', JStr ''hello'')]])])]"

text \<open>A length function to put for \<open>dumps_len\<close> in concrete runs that never call it.\<close>

definition no_dumps :: "json \<Rightarrow> int" where
  "no_dumps v = 0"



definition two_model_stats :: stats where
  "two_model_stats =
     \<lparr>session_id = JNull, file_path = ''session.jsonl'',
      messages = [(''user'', 0), (''assistant'', 3), (''system'', 0)],
      tool_calls = [], tool_result_sizes = [],
      tokens = [(''input'', 60), (''output'', 6), (''cache_read'', 0), (''cache_creation'', 0)],
      models = [(KStr ''opus'', \<lparr>m_input = 40, m_output = 4, m_calls = 2\<rparr>),
                (KStr ''sonnet'', \<lparr>m_input = 20, m_output = 2, m_calls = 1\<rparr>)],
      timestamps_first = JNull, timestamps_last = JNull\<rparr>"

text \<open>What one usage counter adds: \<^verbatim>\<open>usage.get(key, 0)\<close> as an \<^verbatim>\<open>int\<close>.\<close>

definition usage_int :: "json \<Rightarrow> string \<Rightarrow> error + int" where
  "usage_int usage key = and_then (get_default usage key (JInt 0)) as_int"


text \<open>Records that only carry a session id or a timestamp.\<close>

definition session_record :: "json \<Rightarrow> json" where
  "session_record sid = JObj [(''type'', JStr ''system''), (''sessionId'', sid)]"


text \<open>
  A serialiser to put for \<open>dumps\<close> in concrete runs: the snapshot as its timestamp.
  The statistics of a session with one user message, three system messages and one
  empty tool result.
\<close>

definition dumps_timestamp :: "snapshot \<Rightarrow> string" where
  "dumps_timestamp snap = timestamp snap"

definition quiet_stats :: stats where
  "quiet_stats =
     \<lparr>session_id = JNull, file_path = ''quiet.jsonl'',
      messages = [(''user'', 1), (''assistant'', 0), (''system'', 3)],
      tool_calls = [],
      tool_result_sizes = [(KStr ''unknown'', \<lparr>count = 1, total_chars = 0\<rparr>)],
      tokens = [(''input'', 0), (''output'', 0), (''cache_read'', 0), (''cache_creation'', 0)],
      models = [],
      timestamps_first = JNull, timestamps_last = JNull\<rparr>"

text \<open>
  An assistant record with one \<^verbatim>\<open>tool_use\<close> block and a user record with one
  \<^verbatim>\<open>tool_result\<close> block, of a given identifier.
\<close>

definition tool_use_record :: "string \<Rightarrow> json \<Rightarrow> json" where
  "tool_use_record name tool_id =
     JObj [(''type'', JStr ''assistant''),
           (''message'',
              JObj [(''content'',
                       JList [JObj [(''type'', JStr ''tool_use''), (''name'', JStr name),
                                    (''id'', tool_id)]])])]"

definition tool_result_record :: "json \<Rightarrow> string \<Rightarrow> json" where
  "tool_result_record tool_id content =
     JObj [(''type'', JStr ''user''),
           (''message'',
              JObj [(''content'',
                       JList [JObj [(''type'', JStr ''tool_result''), (''tool_use_id'', tool_id),
                                    (''content'', JStr content)]])])]"

section \<open>Properties\<close>

subsection \<open>Loops\<close>

lemmas pass_defs = analyze_session_def first_pass_def first_pass_line_def second_pass_line_def
  first_pass_record_def second_pass_record_def assistant_message_def tool_use_block_def
  tool_result_block_def track_model_def add_token_def count_message_def track_timestamps_def
  track_session_id_def content_size_def and_then_def dict_add_def counter_add_def
  size_get_def model_get_def init_stats_def



lemma for_each_invariant:
  assumes "for_each body xs s = Inr s'" and "I s"
    and "\<And>x t t'. I t \<Longrightarrow> body x t = Inr t' \<Longrightarrow> I t'"
  shows "I s'"
  using assms(1,2)
proof (induction xs arbitrary: s)
  case Nil
  then show ?case by simp
next
  case (Cons x xs)
  then obtain t where t: "body x s = Inr t" and r: "for_each body xs t = Inr s'"
    by (auto split: sum.splits)
  from assms(3)[OF Cons.prems(2) t] Cons.IH[OF r] show ?case by simp
qed

lemma and_then_Inr:
  "and_then r f = Inr y \<longleftrightarrow> (\<exists>v. r = Inr v \<and> f v = Inr y)"
  by (cases r) (simp_all add: and_then_def)

lemma map_of_dict_set: "map_of (dict_set k v d) = (map_of d)(k \<mapsto> v)"
  by (induction d) (auto simp: fun_eq_iff)

lemma keys_dict_set:
  "map fst (dict_set k v d) = (if k \<in> fst ` set d then map fst d else map fst d @ [k])"
  by (induction d) auto



lemma add_token_Inr:
  assumes "add_token field usage key st = Inr st'"
  shows "\<exists>n x. usage_int usage key = Inr n \<and> map_of (tokens st) field = Some x
           \<and> st' = st\<lparr>tokens := dict_set field (x + n) (tokens st)\<rparr>"
  using assms
  by (auto simp: add_token_def usage_int_def and_then_Inr dict_add_def split: option.splits)

lemma track_model_Inr:
  assumes "track_model msg usage st = Inr st'"
  shows "\<exists>k i out. usage_int usage ''input_tokens'' = Inr i \<and> usage_int usage ''output_tokens'' = Inr out
           \<and> st' = st\<lparr>models := dict_set k \<lparr>m_input = m_input (model_get (models st) k) + i,
                                            m_output = m_output (model_get (models st) k) + out,
                                            m_calls = m_calls (model_get (models st) k) + 1\<rparr> (models st)\<rparr>"
  using assms
  by (auto simp: track_model_def usage_int_def and_then_Inr Let_def)


subsection \<open>What each step of the passes changes\<close>

lemma count_message_effect:
  assumes "count_message t st = Inr st'"
  shows "\<exists>m. st' = st\<lparr>messages := m\<rparr>"
proof (cases t)
  case (JStr x)
  with assms show ?thesis
    by (cases "x \<in> set [''user'', ''assistant'', ''system'']")
       (auto simp: count_message_def and_then_Inr intro: exI[of _ "messages st"])
qed (use assms in \<open>auto simp: count_message_def intro: exI[of _ "messages st"]\<close>)

lemma track_timestamps_effect:
  assumes "track_timestamps ob st = Inr st'"
  shows "\<exists>a b. st' = st\<lparr>timestamps_first := a, timestamps_last := b\<rparr>"
proof (cases "map_of ob ''timestamp''")
  case None
  with assms have "st' = st\<lparr>timestamps_first := timestamps_first st, timestamps_last := timestamps_last st\<rparr>"
    by (simp add: track_timestamps_def)
  then show ?thesis by blast
next
  case (Some ts)
  with assms obtain earlier later where
    "st' = (let st1 = (if earlier then st\<lparr>timestamps_first := ts\<rparr> else st)
            in if later then st1\<lparr>timestamps_last := ts\<rparr> else st1)"
    by (auto simp: track_timestamps_def and_then_Inr Let_def)
  then have "st' = st\<lparr>timestamps_first := (if earlier then ts else timestamps_first st),
                      timestamps_last := (if later then ts else timestamps_last st)\<rparr>"
    by (simp add: Let_def)
  then show ?thesis by blast
qed

lemma tool_use_block_effect:
  assumes "tool_use_block block (st, tn) = Inr (st', tn')"
  shows "\<exists>c. st' = st\<lparr>tool_calls := c\<rparr>"
proof -
  have "st' = st \<or> (\<exists>c. st' = st\<lparr>tool_calls := c\<rparr>)"
    using assms
    by (cases block) (auto simp: tool_use_block_def and_then_Inr Let_def split: if_splits)
  moreover have "st = st\<lparr>tool_calls := tool_calls st\<rparr>" by simp
  ultimately show ?thesis by metis
qed

lemma tool_use_blocks_effect:
  assumes "for_each tool_use_block blocks s = Inr s'"
  shows "\<exists>c. fst s' = (fst s)\<lparr>tool_calls := c\<rparr>"
proof (rule for_each_invariant[OF assms, where I = "\<lambda>t. \<exists>c. fst t = (fst s)\<lparr>tool_calls := c\<rparr>"])
  show "\<exists>c. fst s = (fst s)\<lparr>tool_calls := c\<rparr>"
    by (rule exI[of _ "tool_calls (fst s)"]) simp
next
  fix x t t'
  assume "\<exists>c. fst t = (fst s)\<lparr>tool_calls := c\<rparr>" and "tool_use_block x t = Inr t'"
  then show "\<exists>c. fst t' = (fst s)\<lparr>tool_calls := c\<rparr>"
    using tool_use_block_effect[of x "fst t" "snd t" "fst t'" "snd t'"] by auto
qed

lemma tool_result_block_effect:
  assumes "tool_result_block dl tn block st = Inr st'"
  shows "\<exists>z. st' = st\<lparr>tool_result_sizes := z\<rparr>"
proof -
  have "st' = st \<or> (\<exists>z. st' = st\<lparr>tool_result_sizes := z\<rparr>)"
    using assms
    by (cases block) (auto simp: tool_result_block_def and_then_Inr Let_def split: if_splits)
  moreover have "st = st\<lparr>tool_result_sizes := tool_result_sizes st\<rparr>" by simp
  ultimately show ?thesis by metis
qed

lemma tool_result_blocks_effect:
  assumes "for_each (tool_result_block dl tn) blocks st = Inr st'"
  shows "\<exists>z. st' = st\<lparr>tool_result_sizes := z\<rparr>"
proof (rule for_each_invariant[OF assms, where I = "\<lambda>t. \<exists>z. t = st\<lparr>tool_result_sizes := z\<rparr>"])
  show "\<exists>z. st = st\<lparr>tool_result_sizes := z\<rparr>"
    by (rule exI[of _ "tool_result_sizes st"]) simp
next
  fix x t t'
  assume "\<exists>z. t = st\<lparr>tool_result_sizes := z\<rparr>" and "tool_result_block dl tn x t = Inr t'"
  then show "\<exists>z. t' = st\<lparr>tool_result_sizes := z\<rparr>"
    using tool_result_block_effect[of dl tn x t t'] by auto
qed

text \<open>The second pass of one decoded line, taken apart.\<close>

lemma second_pass_record_cases:
  assumes "second_pass_record dl tn obj st = Inr st'"
  obtains "st' = st"
  | blocks where "for_each (tool_result_block dl tn) blocks st = Inr st'"
proof (cases obj)
  case (JObj ob)
  show ?thesis
  proof (cases "map_of ob ''type'' = Some (JStr ''user'')")
    case False
    with assms JObj that(1) show ?thesis by (simp add: second_pass_record_def)
  next
    case True
    show ?thesis
    proof (cases "map_of ob ''message''")
      case None
      with assms JObj True that(1) show ?thesis by (simp add: second_pass_record_def)
    next
      case (Some msg)
      with assms JObj True obtain content where
        c: "(case content of JList blocks \<Rightarrow> for_each (tool_result_block dl tn) blocks st
             | _ \<Rightarrow> Inr st) = Inr st'"
        by (auto simp: second_pass_record_def and_then_Inr)
      then show ?thesis
        using that by (cases content) auto
    qed
  qed
qed (use assms in \<open>simp_all add: second_pass_record_def\<close>)

lemma second_pass_line_effect:
  assumes "second_pass_line loads dl tn line st = Inr st'"
  shows "\<exists>z. st' = st\<lparr>tool_result_sizes := z\<rparr>"
proof (cases "loads line")
  case None
  with assms have "st' = st\<lparr>tool_result_sizes := tool_result_sizes st\<rparr>"
    by (simp add: second_pass_line_def)
  then show ?thesis by blast
next
  case (Some obj)
  with assms have "second_pass_record dl tn obj st = Inr st'"
    by (simp add: second_pass_line_def)
  then show ?thesis
  proof (cases rule: second_pass_record_cases)
    case 1
    then have "st' = st\<lparr>tool_result_sizes := tool_result_sizes st\<rparr>" by simp
    then show ?thesis by blast
  next
    case (2 blocks)
    then show ?thesis by (rule tool_result_blocks_effect)
  qed
qed

lemma second_pass_effect:
  assumes "for_each (second_pass_line loads dl tn) lines st = Inr st'"
  shows "\<exists>z. st' = st\<lparr>tool_result_sizes := z\<rparr>"
proof (rule for_each_invariant[OF assms, where I = "\<lambda>t. \<exists>z. t = st\<lparr>tool_result_sizes := z\<rparr>"])
  show "\<exists>z. st = st\<lparr>tool_result_sizes := z\<rparr>"
    by (rule exI[of _ "tool_result_sizes st"]) simp
next
  fix x t t'
  assume "\<exists>z. t = st\<lparr>tool_result_sizes := z\<rparr>" and "second_pass_line loads dl tn x t = Inr t'"
  then show "\<exists>z. t' = st\<lparr>tool_result_sizes := z\<rparr>"
    using second_pass_line_effect[of loads dl tn x t t'] by auto
qed

text \<open>A run of \<open>analyze_session\<close> that returns, taken apart into its two passes.\<close>

lemma analyze_session_Inr:
  assumes "analyze_session loads dumps_len jsonl_path lines = Inr st"
  obtains st1 tn z where "first_pass loads jsonl_path lines = Inr (st1, tn)"
    and "for_each (second_pass_line loads dumps_len tn) lines st1 = Inr st"
    and "st = st1\<lparr>tool_result_sizes := z\<rparr>"
proof -
  from assms obtain st1 tn where
    p1: "first_pass loads jsonl_path lines = Inr (st1, tn)" and
    p2: "for_each (second_pass_line loads dumps_len tn) lines st1 = Inr st"
    by (auto simp: analyze_session_def and_then_Inr)
  from second_pass_effect[OF p2] p1 p2 that show ?thesis by blast
qed

text \<open>The first pass of one decoded line, taken apart.\<close>

lemma assistant_message_Inr:
  assumes "assistant_message msg (st, tn) = Inr (st', tn')"
  obtains usage st1 st2 st3 st4 st5 content blocks where
    "get_default msg ''usage'' (JObj []) = Inr usage"
    "add_token ''input'' usage ''input_tokens'' st = Inr st1"
    "add_token ''output'' usage ''output_tokens'' st1 = Inr st2"
    "add_token ''cache_read'' usage ''cache_read_input_tokens'' st2 = Inr st3"
    "add_token ''cache_creation'' usage ''cache_creation_input_tokens'' st3 = Inr st4"
    "track_model msg usage st4 = Inr st5"
    "get_default msg ''content'' (JList []) = Inr content"
    "iterate content = Inr blocks"
    "for_each tool_use_block blocks (st5, tn) = Inr (st', tn')"
  using assms unfolding assistant_message_def prod.case and_then_Inr by blast

lemma first_pass_record_Inr:
  assumes "first_pass_record obj (st, tn) = Inr (st', tn')"
  obtains ob st2 st3 where "obj = JObj ob"
    "track_timestamps ob (track_session_id ob st) = Inr st2"
    "count_message (case map_of ob ''type'' of None \<Rightarrow> JNull | Some t \<Rightarrow> t) st2 = Inr st3"
    "(map_of ob ''type'' = Some (JStr ''assistant'') \<and>
        (\<exists>msg. map_of ob ''message'' = Some msg \<and> assistant_message msg (st3, tn) = Inr (st', tn')))
     \<or> (\<not> (map_of ob ''type'' = Some (JStr ''assistant'') \<and> map_of ob ''message'' \<noteq> None)
         \<and> st' = st3 \<and> tn' = tn)"
proof (cases obj)
  case (JObj ob)
  let ?rt = "case map_of ob ''type'' of None \<Rightarrow> JNull | Some t \<Rightarrow> t"
  from assms obtain st2 st3 where
    t: "track_timestamps ob (track_session_id ob st) = Inr st2" and
    c: "count_message ?rt st2 = Inr st3" and
    r: "(if ?rt = JStr ''assistant'' then
           (case map_of ob ''message'' of None \<Rightarrow> Inr (st3, tn)
            | Some msg \<Rightarrow> assistant_message msg (st3, tn))
         else Inr (st3, tn)) = Inr (st', tn')"
    unfolding JObj first_pass_record_def prod.case json.case Let_def and_then_Inr by blast
  have rt: "?rt = JStr ''assistant'' \<longleftrightarrow> map_of ob ''type'' = Some (JStr ''assistant'')"
    by (cases "map_of ob ''type''") auto
  from r have "(map_of ob ''type'' = Some (JStr ''assistant'') \<and>
        (\<exists>msg. map_of ob ''message'' = Some msg \<and> assistant_message msg (st3, tn) = Inr (st', tn')))
     \<or> (\<not> (map_of ob ''type'' = Some (JStr ''assistant'') \<and> map_of ob ''message'' \<noteq> None)
         \<and> st' = st3 \<and> tn' = tn)"
    unfolding rt by (cases "map_of ob ''message''") (auto split: if_splits)
  with that JObj t c show ?thesis by blast
qed (use assms in \<open>simp_all add: first_pass_record_def\<close>)

lemma assistant_message_effect:
  assumes "assistant_message msg (st, tn) = Inr (st', tn')"
  shows "\<exists>t m c. st' = st\<lparr>tokens := t, models := m, tool_calls := c\<rparr>"
proof -
  from assms obtain usage st1 st2 st3 st4 st5 blocks where
    a1: "add_token ''input'' usage ''input_tokens'' st = Inr st1" and
    a2: "add_token ''output'' usage ''output_tokens'' st1 = Inr st2" and
    a3: "add_token ''cache_read'' usage ''cache_read_input_tokens'' st2 = Inr st3" and
    a4: "add_token ''cache_creation'' usage ''cache_creation_input_tokens'' st3 = Inr st4" and
    m: "track_model msg usage st4 = Inr st5" and
    b: "for_each tool_use_block blocks (st5, tn) = Inr (st', tn')"
    by (rule assistant_message_Inr)
  from add_token_Inr[OF a1] obtain t1 where "st1 = st\<lparr>tokens := t1\<rparr>" by blast
  moreover from add_token_Inr[OF a2] obtain t2 where "st2 = st1\<lparr>tokens := t2\<rparr>" by blast
  moreover from add_token_Inr[OF a3] obtain t3 where "st3 = st2\<lparr>tokens := t3\<rparr>" by blast
  moreover from add_token_Inr[OF a4] obtain t4 where "st4 = st3\<lparr>tokens := t4\<rparr>" by blast
  moreover from track_model_Inr[OF m] obtain mo where "st5 = st4\<lparr>models := mo\<rparr>" by blast
  moreover from tool_use_blocks_effect[OF b] obtain c where "st' = st5\<lparr>tool_calls := c\<rparr>" by auto
  ultimately have "st' = st\<lparr>tokens := t4, models := mo, tool_calls := c\<rparr>" by simp
  then show ?thesis by blast
qed

text \<open>The first pass of one record changes the session id and the timestamps as
  \<open>track_session_id\<close> and \<open>track_timestamps\<close> do, and nothing else changes them.\<close>

lemma first_pass_record_header:
  assumes "first_pass_record obj (st, tn) = Inr (st', tn')"
  obtains ob st2 where "obj = JObj ob"
    "track_timestamps ob (track_session_id ob st) = Inr st2"
    "session_id st' = session_id (track_session_id ob st)"
    "timestamps_first st' = timestamps_first st2" "timestamps_last st' = timestamps_last st2"
proof -
  from assms obtain ob st2 st3 where ob: "obj = JObj ob" and
    t: "track_timestamps ob (track_session_id ob st) = Inr st2" and
    c: "count_message (case map_of ob ''type'' of None \<Rightarrow> JNull | Some t \<Rightarrow> t) st2 = Inr st3" and
    r: "(\<exists>msg. assistant_message msg (st3, tn) = Inr (st', tn')) \<or> st' = st3"
    by (rule first_pass_record_Inr) blast
  from r have "session_id st' = session_id st3 \<and> timestamps_first st' = timestamps_first st3
      \<and> timestamps_last st' = timestamps_last st3"
    by (auto dest!: assistant_message_effect)
  with count_message_effect[OF c] track_timestamps_effect[OF t]
  have "session_id st' = session_id (track_session_id ob st) \<and> timestamps_first st' = timestamps_first st2
      \<and> timestamps_last st' = timestamps_last st2"
    by auto
  with that ob t show ?thesis by blast
qed

subsection \<open>The scenario of two records\<close>

text \<open>
  Claim C2. On the file of two lines, the assistant record of the scenario followed by
  its user record, \<open>analyze_session\<close> returns statistics with
  \<^verbatim>\<open>tool_calls = {"Read": 1}\<close>, \<^verbatim>\<open>tokens.input = 100\<close>, \<^verbatim>\<open>tokens.output = 50\<close> and
  \<^verbatim>\<open>tool_result_sizes = {"Read": {"count": 1, "total_chars": 5}}\<close>. The theorem gives
  the whole result, for every decoder that maps the two lines to the two records.
\<close>

theorem scenario_stats:
  assumes "loads l1 = Some scenario_assistant" and "loads l2 = Some scenario_user"
  shows "analyze_session loads dumps_len jsonl_path [l1, l2] =
     Inr \<lparr>session_id = JNull, file_path = jsonl_path,
          messages = [(''user'', 1), (''assistant'', 1), (''system'', 0)],
          tool_calls = [(KStr ''Read'', 1)],
          tool_result_sizes = [(KStr ''Read'', \<lparr>count = 1, total_chars = 5\<rparr>)],
          tokens = [(''input'', 100), (''output'', 50), (''cache_read'', 0), (''cache_creation'', 0)],
          models = [(KStr ''unknown'', \<lparr>m_input = 100, m_output = 50, m_calls = 1\<rparr>)],
          timestamps_first = JNull, timestamps_last = JNull\<rparr>"
  using assms by (simp add: pass_defs scenario_assistant_def scenario_user_def)

theorem scenario_stats_witness:
  "analyze_session id no_dumps ''session.jsonl'' [Some scenario_assistant, Some scenario_user] =
     Inr \<lparr>session_id = JNull, file_path = ''session.jsonl'',
          messages = [(''user'', 1), (''assistant'', 1), (''system'', 0)],
          tool_calls = [(KStr ''Read'', 1)],
          tool_result_sizes = [(KStr ''Read'', \<lparr>count = 1, total_chars = 5\<rparr>)],
          tokens = [(''input'', 100), (''output'', 50), (''cache_read'', 0), (''cache_creation'', 0)],
          models = [(KStr ''unknown'', \<lparr>m_input = 100, m_output = 50, m_calls = 1\<rparr>)],
          timestamps_first = JNull, timestamps_last = JNull\<rparr>"
  using scenario_stats [of id "Some scenario_assistant" "Some scenario_user" no_dumps "''session.jsonl''"]
  by simp

subsection \<open>Lines that do not decode\<close>



subsection \<open>Token totals\<close>








subsection \<open>Session id\<close>

lemma first_pass_line_session_id:
  assumes "first_pass_line loads line s = Inr s'"
  shows "session_id (fst s') =
     (case session_id_of loads line of None \<Rightarrow> session_id (fst s)
      | Some sid \<Rightarrow> if truthy (session_id (fst s)) then session_id (fst s) else sid)"
proof (cases "loads line")
  case None
  with assms show ?thesis by (simp add: first_pass_line_def session_id_of_def)
next
  case (Some obj)
  with assms have "first_pass_record obj (fst s, snd s) = Inr (fst s', snd s')"
    by (simp add: first_pass_line_def)
  then obtain ob where "obj = JObj ob" "session_id (fst s') = session_id (track_session_id ob (fst s))"
    by (rule first_pass_record_header)
  with Some show ?thesis
    by (simp add: session_id_of_def track_session_id_def split: option.splits)
qed

lemma first_pass_session_id:
  assumes "for_each (first_pass_line loads) lines s = Inr s'"
  shows "session_id (fst s') = adopt (session_ids loads lines) (session_id (fst s))"
  using assms
proof (induction lines arbitrary: s)
  case Nil
  then show ?case by (simp add: adopt_def session_ids_def)
next
  case (Cons l ls)
  then obtain t where t: "first_pass_line loads l s = Inr t" and r: "for_each (first_pass_line loads) ls t = Inr s'"
    by (auto split: sum.splits)
  show ?case
    unfolding Cons.IH[OF r] first_pass_line_session_id[OF t]
    by (simp add: adopt_def session_ids_def split: option.splits)
qed

lemma adopt_truthy: "truthy cur \<Longrightarrow> adopt sids cur = cur"
  by (induction sids) (simp_all add: adopt_def)

lemma adopt_find:
  "adopt sids cur =
     (if truthy cur then cur
      else case find truthy sids of Some sid \<Rightarrow> sid
           | None \<Rightarrow> if sids = [] then cur else last sids)"
proof (induction sids arbitrary: cur)
  case Nil
  then show ?case by (simp add: adopt_def)
next
  case (Cons s ss)
  have step: "adopt (s # ss) cur = adopt ss (if truthy cur then cur else s)"
    by (simp add: adopt_def)
  show ?case
    unfolding step Cons.IH by (auto split: option.splits)
qed

text \<open>
  Claim C6, as amended. The session id of the statistics is the \<^verbatim>\<open>sessionId\<close> of the
  first record, in file order, whose \<^verbatim>\<open>sessionId\<close> is truthy, and no later record
  replaces it. While only falsy values (\<^verbatim>\<open>""\<close>, \<^verbatim>\<open>0\<close>, \<^verbatim>\<open>false\<close>, \<^verbatim>\<open>null\<close>,
  \<^verbatim>\<open>[]\<close>, \<^verbatim>\<open>{}\<close>) have been seen, each record that carries a \<^verbatim>\<open>sessionId\<close>
  replaces the one before: with no truthy value in the file the session id is the
  last \<^verbatim>\<open>sessionId\<close> of the file, and \<^verbatim>\<open>None\<close> when no record carries one.
\<close>

theorem session_id_first_truthy:
  assumes "analyze_session loads dumps_len jsonl_path lines = Inr st"
  shows "session_id st =
     (case find truthy (session_ids loads lines) of
        Some sid \<Rightarrow> sid
      | None \<Rightarrow> if session_ids loads lines = [] then JNull else last (session_ids loads lines))"
proof -
  from assms obtain st1 tn z where
    p1: "first_pass loads jsonl_path lines = Inr (st1, tn)" and
    z: "st = st1\<lparr>tool_result_sizes := z\<rparr>"
    by (rule analyze_session_Inr)
  from first_pass_session_id[OF p1[unfolded first_pass_def]]
  have "session_id st1 = adopt (session_ids loads lines) JNull"
    by (simp add: init_stats_def)
  then show ?thesis
    by (simp add: z adopt_find)
qed

theorem session_id_first_truthy_witness:
  "analyze_session Some no_dumps ''session.jsonl''
     [session_record (JStr ''''), session_record (JStr ''abc''), session_record (JStr ''xyz'')] =
   Inr ((init_stats ''session.jsonl'')\<lparr>session_id := JStr ''abc'',
          messages := [(''user'', 0), (''assistant'', 0), (''system'', 3)]\<rparr>)
   \<and> find truthy (session_ids Some
        [session_record (JStr ''''), session_record (JStr ''abc''), session_record (JStr ''xyz'')])
      = Some (JStr ''abc'')"
proof -
  have run: "analyze_session Some no_dumps ''session.jsonl''
     [session_record (JStr ''''), session_record (JStr ''abc''), session_record (JStr ''xyz'')] =
   Inr ((init_stats ''session.jsonl'')\<lparr>session_id := JStr ''abc'',
          messages := [(''user'', 0), (''assistant'', 0), (''system'', 3)]\<rparr>)"
    by (simp add: pass_defs session_record_def)
  from session_id_first_truthy[OF run] run show ?thesis
    by (simp add: session_ids_def session_id_of_def session_record_def)
qed

text \<open>
  The claim as it was stated fails when the first \<^verbatim>\<open>sessionId\<close> is the empty string:
  line 52 tests \<^verbatim>\<open>not stats['session_id']\<close>, so the second record replaces it.
\<close>

theorem first_session_id_replaced:
  "analyze_session Some no_dumps ''session.jsonl''
     [session_record (JStr ''''), session_record (JStr ''abc'')] =
   Inr ((init_stats ''session.jsonl'')\<lparr>session_id := JStr ''abc'',
          messages := [(''user'', 0), (''assistant'', 0), (''system'', 2)]\<rparr>)
   \<and> session_id_of Some (session_record (JStr '''')) = Some (JStr '''')"
  by (simp add: pass_defs session_record_def session_id_of_def)

subsection \<open>First and last timestamp\<close>









subsection \<open>Whether a run returns does not depend on the order of the lines\<close>

lemma returns_Inr [simp]: "returns (Inr v)" and returns_Inl [simp]: "\<not> returns (Inl e)"
  by (simp_all add: returns_def)



lemma for_each_returns:
  assumes "I s" and "\<And>x t. x \<in> set xs \<Longrightarrow> I t \<Longrightarrow> \<exists>t'. body x t = Inr t' \<and> I t'"
  shows "\<exists>s'. for_each body xs s = Inr s' \<and> I s'"
  using assms
proof (induction xs arbitrary: s)
  case Nil
  then show ?case by simp
next
  case (Cons x xs)
  from Cons.prems(2)[of x s] Cons.prems(1) obtain t where t: "body x s = Inr t" "I t" by auto
  from Cons.IH[OF t(2)] Cons.prems(2) obtain s' where "for_each body xs t = Inr s'" "I s'"
    by auto
  with t show ?case by simp
qed

























subsection \<open>export_snapshot\<close>


lemma export_snapshot_Inr:
  assumes "export_snapshot dumps now fs all_stats output_path append_arg grafema_mcp note_arg = Inr (fs', snap)"
  obtains t where "for_each snapshot_add all_stats snapshot_totals = Inr t"
    "snap = make_snapshot now all_stats t grafema_mcp note_arg"
    "fs' = write_text fs output_path (if append_arg \<and> fs output_path \<noteq> None then Mode_a else Mode_w)
             (dumps snap @ [CHR 0x0A])"
  using assms unfolding export_snapshot_def and_then_Inr Let_def by auto

text \<open>The only messages summed into a snapshot are those of the keys it starts with.\<close>

lemma keys_add_known: "map fst (add_known item d) = map fst d"
proof (cases item)
  case (Pair k v)
  show ?thesis
  proof (cases "map_of d k")
    case None
    with Pair show ?thesis by (simp add: add_known_def)
  next
    case (Some x)
    then have "k \<in> fst ` set d" by (rule map_of_SomeD[THEN imageI, of _ _ _ fst, simplified])
    with Pair Some show ?thesis by (simp add: add_known_def keys_dict_set)
  qed
qed

lemma keys_fold_add_known: "map fst (fold add_known items d) = map fst d"
  by (induction items arbitrary: d) (simp_all add: keys_add_known)

lemma map_of_add_known:
  "map_of (add_known (k', v) d) k =
     (case map_of d k of None \<Rightarrow> None
      | Some x \<Rightarrow> Some (if k = k' then x + v else x))"
  by (cases "map_of d k'") (auto simp: add_known_def map_of_dict_set split: option.splits)

lemma map_of_fold_add_known:
  "map_of (fold add_known items d) k =
     (case map_of d k of None \<Rightarrow> None | Some x \<Rightarrow> Some (x + entries_sum k items))"
proof (induction items arbitrary: d)
  case Nil
  show ?case by (simp add: entries_sum_def split: option.splits)
next
  case (Cons item items)
  obtain k' v where item: "item = (k', v)" by (cases item)
  show ?case
    by (simp add: Cons.IH item map_of_add_known entries_sum_def split: option.splits)
qed

lemma snapshot_add_messages:
  assumes "snapshot_add st t = Inr t'"
  shows "total_messages t' = fold add_known (messages st) (total_messages t)"
  using assms by (auto simp: snapshot_add_def and_then_Inr)

lemma snapshot_messages:
  assumes "for_each snapshot_add all_stats t = Inr t'"
  shows "map fst (total_messages t') = map fst (total_messages t)
     \<and> (\<forall>k. map_of (total_messages t') k =
           (case map_of (total_messages t) k of None \<Rightarrow> None
            | Some x \<Rightarrow> Some (x + sum_list (map (\<lambda>st. entries_sum k (messages st)) all_stats))))"
  using assms
proof (induction all_stats arbitrary: t)
  case Nil
  then show ?case by (simp split: option.splits)
next
  case (Cons st sts)
  then obtain u where u: "snapshot_add st t = Inr u" and r: "for_each snapshot_add sts u = Inr t'"
    by (auto split: sum.splits)
  from Cons.IH[OF r] show ?case
    unfolding snapshot_add_messages[OF u]
    by (simp add: keys_fold_add_known map_of_fold_add_known split: option.splits)
qed

text \<open>
  Claim C10. The \<^verbatim>\<open>messages\<close> field of the snapshot \<open>export_snapshot\<close> builds has the
  keys \<^verbatim>\<open>user\<close> and \<^verbatim>\<open>assistant\<close> and no other: it has no key \<^verbatim>\<open>system\<close>, and its two
  values are the sums of the sessions' user and assistant counts, whatever the
  sessions count under \<^verbatim>\<open>system\<close>.
\<close>

theorem snapshot_messages_user_assistant_only:
  assumes "export_snapshot dumps now fs all_stats output_path append_arg grafema_mcp note_arg = Inr (fs', snap)"
  shows "map fst (snap_messages snap) = [''user'', ''assistant'']
     \<and> map_of (snap_messages snap) ''system'' = None
     \<and> map_of (snap_messages snap) ''user'' =
         Some (sum_list (map (\<lambda>st. entries_sum ''user'' (messages st)) all_stats))
     \<and> map_of (snap_messages snap) ''assistant'' =
         Some (sum_list (map (\<lambda>st. entries_sum ''assistant'' (messages st)) all_stats))"
proof -
  from assms obtain t where t: "for_each snapshot_add all_stats snapshot_totals = Inr t"
    and s: "snap = make_snapshot now all_stats t grafema_mcp note_arg"
    by (rule export_snapshot_Inr)
  from snapshot_messages[OF t] show ?thesis
    by (simp add: s make_snapshot_def snapshot_totals_def)
qed

theorem snapshot_messages_user_assistant_only_witness:
  "export_snapshot dumps_timestamp ''T2'' Map.empty [quiet_stats, two_model_stats] ''stats.jsonl'' True False None =
     Inr (Map.empty(''stats.jsonl'' \<mapsto> ''T2'' @ [CHR 0x0A]),
          make_snapshot ''T2'' [quiet_stats, two_model_stats]
            \<lparr>total_messages = [(''user'', 1), (''assistant'', 3)],
             total_tokens = [(''input'', 60), (''output'', 6), (''cache_read'', 0), (''cache_creation'', 0)],
             total_tool_calls = [],
             total_tool_result_sizes = [(KStr ''unknown'', \<lparr>count = 1, total_chars = 0\<rparr>)]\<rparr> False None)
   \<and> entries_sum ''system'' (messages quiet_stats) = 3
   \<and> map_of (snap_messages (make_snapshot ''T2'' [quiet_stats, two_model_stats]
            \<lparr>total_messages = [(''user'', 1), (''assistant'', 3)],
             total_tokens = [(''input'', 60), (''output'', 6), (''cache_read'', 0), (''cache_creation'', 0)],
             total_tool_calls = [],
             total_tool_result_sizes = [(KStr ''unknown'', \<lparr>count = 1, total_chars = 0\<rparr>)]\<rparr> False None))
        ''system'' = None"
proof -
  have run: "export_snapshot dumps_timestamp ''T2'' Map.empty [quiet_stats, two_model_stats] ''stats.jsonl'' True False None =
     Inr (Map.empty(''stats.jsonl'' \<mapsto> ''T2'' @ [CHR 0x0A]),
          make_snapshot ''T2'' [quiet_stats, two_model_stats]
            \<lparr>total_messages = [(''user'', 1), (''assistant'', 3)],
             total_tokens = [(''input'', 60), (''output'', 6), (''cache_read'', 0), (''cache_creation'', 0)],
             total_tool_calls = [],
             total_tool_result_sizes = [(KStr ''unknown'', \<lparr>count = 1, total_chars = 0\<rparr>)]\<rparr> False None)"
    by (simp add: export_snapshot_def snapshot_add_def add_item_def add_known_def add_count_def
        add_sizes_def dict_add_def counter_add_def size_get_def and_then_def snapshot_totals_def
        quiet_stats_def two_model_stats_def write_text_def make_snapshot_def dumps_timestamp_def)
  from snapshot_messages_user_assistant_only[OF run] run show ?thesis
    by (simp add: entries_sum_def quiet_stats_def)
qed

subsection \<open>Appending snapshots\<close>

lemma export_snapshot_append:
  assumes "export_snapshot dumps now fs all_stats output_path True grafema_mcp note_arg = Inr (fs', snap)"
  shows "fs' = fs(output_path \<mapsto> (case fs output_path of None \<Rightarrow> [] | Some old \<Rightarrow> old) @ dumps snap @ [newline])"
proof -
  from assms have "fs' = write_text fs output_path (if fs output_path \<noteq> None then Mode_a else Mode_w)
             (dumps snap @ [CHR 0x0A])"
    by (rule export_snapshot_Inr) simp
  then show ?thesis
    by (cases "fs output_path") (simp_all add: write_text_def newline_def)
qed

text \<open>
  Claim C5, as amended. With \<^verbatim>\<open>append\<close> true (its default, and how \<^verbatim>\<open>main\<close> calls it),
  two exports to the same existing path leave what the file held in place and add the
  line of the first call and then the line of the second: one line for each call, as
  \<^verbatim>\<open>json.dumps\<close> writes no newline, and no other file changes.
\<close>

theorem export_twice_appends:
  assumes "export_snapshot dumps now1 fs stats1 output_path True mcp1 note1 = Inr (fs1, snap1)"
    and "export_snapshot dumps now2 fs1 stats2 output_path True mcp2 note2 = Inr (fs2, snap2)"
    and "fs output_path = Some old"
    and "newline \<notin> set (dumps snap1)" and "newline \<notin> set (dumps snap2)"
  shows "fs1 output_path = Some (old @ dumps snap1 @ [newline])
     \<and> fs2 output_path = Some (old @ dumps snap1 @ [newline] @ dumps snap2 @ [newline])
     \<and> line_count (old @ dumps snap1 @ [newline]) = line_count old + 1
     \<and> line_count (old @ dumps snap1 @ [newline] @ dumps snap2 @ [newline]) = line_count old + 2
     \<and> (\<forall>other. other \<noteq> output_path \<longrightarrow> fs2 other = fs other)"
proof -
  have nl: "line_count (xs @ ys) = line_count xs + line_count ys" for xs ys
    by (simp add: line_count_def)
  have l1: "line_count (dumps snap1 @ [newline]) = 1" "line_count (dumps snap2 @ [newline]) = 1"
    using assms(4,5) by (auto simp: line_count_def filter_empty_conv)
  from export_snapshot_append[OF assms(1)] assms(3)
  have f1: "fs1 = fs(output_path \<mapsto> old @ dumps snap1 @ [newline])" by simp
  from export_snapshot_append[OF assms(2)] f1
  have f2: "fs2 = fs1(output_path \<mapsto> old @ dumps snap1 @ [newline] @ dumps snap2 @ [newline])" by simp
  have c1: "line_count (old @ dumps snap1 @ [newline]) = line_count old + 1"
    unfolding nl[of old] l1 by simp
  have c2: "line_count (old @ dumps snap1 @ [newline] @ dumps snap2 @ [newline]) = line_count old + 2"
    using nl[of old "(dumps snap1 @ [newline]) @ (dumps snap2 @ [newline])"]
      nl[of "dumps snap1 @ [newline]" "dumps snap2 @ [newline]"] l1 by simp
  from f1 f2 c1 c2 show ?thesis by simp
qed

theorem export_twice_appends_witness:
  "export_snapshot dumps_timestamp ''T1'' [''stats.jsonl'' \<mapsto> ''T0'' @ [newline]] [quiet_stats]
       ''stats.jsonl'' True False None =
     Inr ([''stats.jsonl'' \<mapsto> ''T0'' @ [newline] @ ''T1'' @ [newline]],
          make_snapshot ''T1'' [quiet_stats]
            \<lparr>total_messages = [(''user'', 1), (''assistant'', 0)],
             total_tokens = [(''input'', 0), (''output'', 0), (''cache_read'', 0), (''cache_creation'', 0)],
             total_tool_calls = [],
             total_tool_result_sizes = [(KStr ''unknown'', \<lparr>count = 1, total_chars = 0\<rparr>)]\<rparr> False None)
   \<and> export_snapshot dumps_timestamp ''T2'' [''stats.jsonl'' \<mapsto> ''T0'' @ [newline] @ ''T1'' @ [newline]] []
       ''stats.jsonl'' True True (Some ''second'') =
     Inr ([''stats.jsonl'' \<mapsto> ''T0'' @ [newline] @ ''T1'' @ [newline] @ ''T2'' @ [newline]],
          make_snapshot ''T2'' [] snapshot_totals True (Some ''second''))
   \<and> line_count (''T0'' @ [newline] @ ''T1'' @ [newline] @ ''T2'' @ [newline]) = line_count (''T0'' @ [newline]) + 2"
proof -
  let ?fs = "[''stats.jsonl'' \<mapsto> ''T0'' @ [newline]]"
  let ?s1 = "make_snapshot ''T1'' [quiet_stats]
            \<lparr>total_messages = [(''user'', 1), (''assistant'', 0)],
             total_tokens = [(''input'', 0), (''output'', 0), (''cache_read'', 0), (''cache_creation'', 0)],
             total_tool_calls = [],
             total_tool_result_sizes = [(KStr ''unknown'', \<lparr>count = 1, total_chars = 0\<rparr>)]\<rparr> False None"
  let ?s2 = "make_snapshot ''T2'' [] snapshot_totals True (Some ''second'')"
  have r1: "export_snapshot dumps_timestamp ''T1'' ?fs [quiet_stats] ''stats.jsonl'' True False None =
     Inr ([''stats.jsonl'' \<mapsto> ''T0'' @ [newline] @ ''T1'' @ [newline]], ?s1)"
    by (simp add: export_snapshot_def snapshot_add_def add_item_def add_known_def add_count_def
        add_sizes_def dict_add_def counter_add_def size_get_def and_then_def snapshot_totals_def
        quiet_stats_def write_text_def make_snapshot_def dumps_timestamp_def newline_def)
  have r2: "export_snapshot dumps_timestamp ''T2'' [''stats.jsonl'' \<mapsto> ''T0'' @ [newline] @ ''T1'' @ [newline]] []
       ''stats.jsonl'' True True (Some ''second'') =
     Inr ([''stats.jsonl'' \<mapsto> ''T0'' @ [newline] @ ''T1'' @ [newline] @ ''T2'' @ [newline]], ?s2)"
    by (simp add: export_snapshot_def and_then_def write_text_def make_snapshot_def
        dumps_timestamp_def newline_def)
  have old: "?fs ''stats.jsonl'' = Some (''T0'' @ [newline])" by simp
  have n1: "newline \<notin> set (dumps_timestamp ?s1)" and n2: "newline \<notin> set (dumps_timestamp ?s2)"
    by (simp_all add: dumps_timestamp_def make_snapshot_def newline_def)
  have d: "dumps_timestamp ?s1 = ''T1''" "dumps_timestamp ?s2 = ''T2''"
    by (simp_all add: dumps_timestamp_def make_snapshot_def)
  from export_twice_appends[OF r1 r2 old n1 n2] r1 r2 show ?thesis
    unfolding d by simp
qed

text \<open>
  The claim as it was stated fails for a call with \<^verbatim>\<open>append=False\<close>: line 328 opens
  the file in mode \<^verbatim>\<open>'w'\<close>, and the line it held is gone.
\<close>

theorem export_without_append_truncates:
  "export_snapshot dumps_timestamp ''T2'' [''stats.jsonl'' \<mapsto> ''T1'' @ [newline]] []
       ''stats.jsonl'' False False None =
     Inr ([''stats.jsonl'' \<mapsto> ''T2'' @ [newline]], make_snapshot ''T2'' [] snapshot_totals False None)"
  by (simp add: export_snapshot_def and_then_def write_text_def make_snapshot_def
      dumps_timestamp_def newline_def)

subsection \<open>The statistics of a run have the fixed keys\<close>

lemma dict_add_keys:
  assumes "dict_add k n d = Inr d'"
  shows "map fst d' = map fst d"
proof -
  from assms obtain x where x: "map_of d k = Some x" and d': "d' = dict_set k (x + n) d"
    by (auto simp: dict_add_def split: option.splits)
  from x have "k \<in> fst ` set d" by (metis domI dom_map_of_conv_image_fst)
  with d' show ?thesis by (simp add: keys_dict_set)
qed

lemma count_message_keys:
  assumes "count_message t st = Inr st'"
  shows "map fst (messages st') = map fst (messages st)"
proof (cases t)
  case (JStr x)
  with assms show ?thesis
    by (cases "x \<in> set [''user'', ''assistant'', ''system'']")
       (auto simp: count_message_def and_then_Inr dest: dict_add_keys)
qed (use assms in \<open>auto simp: count_message_def\<close>)

lemma add_token_keys:
  assumes "add_token field usage key st = Inr st'"
  shows "map fst (tokens st') = map fst (tokens st) \<and> messages st' = messages st"
  using assms by (auto simp: add_token_def and_then_Inr dest: dict_add_keys)

lemma assistant_message_keys:
  assumes "assistant_message msg (st, tn) = Inr (st', tn')"
  shows "map fst (tokens st') = map fst (tokens st) \<and> messages st' = messages st"
proof -
  from assms obtain usage st1 st2 st3 st4 st5 blocks where
    a1: "add_token ''input'' usage ''input_tokens'' st = Inr st1" and
    a2: "add_token ''output'' usage ''output_tokens'' st1 = Inr st2" and
    a3: "add_token ''cache_read'' usage ''cache_read_input_tokens'' st2 = Inr st3" and
    a4: "add_token ''cache_creation'' usage ''cache_creation_input_tokens'' st3 = Inr st4" and
    m: "track_model msg usage st4 = Inr st5" and
    b: "for_each tool_use_block blocks (st5, tn) = Inr (st', tn')"
    by (rule assistant_message_Inr)
  from track_model_Inr[OF m] obtain mo where "st5 = st4\<lparr>models := mo\<rparr>" by blast
  moreover from tool_use_blocks_effect[OF b] obtain c where "st' = st5\<lparr>tool_calls := c\<rparr>" by auto
  ultimately have "tokens st' = tokens st4 \<and> messages st' = messages st4" by simp
  with add_token_keys[OF a1] add_token_keys[OF a2] add_token_keys[OF a3] add_token_keys[OF a4]
  show ?thesis by simp
qed

lemma first_pass_record_well_formed:
  assumes "first_pass_record obj s = Inr s'" and "well_formed (fst s)"
  shows "well_formed (fst s')"
proof -
  obtain st tn where s: "s = (st, tn)" by (cases s)
  obtain st' tn' where s': "s' = (st', tn')" by (cases s')
  from assms(1)[unfolded s s'] obtain ob st2 st3 where
    t: "track_timestamps ob (track_session_id ob st) = Inr st2" and
    c: "count_message (case map_of ob ''type'' of None \<Rightarrow> JNull | Some t \<Rightarrow> t) st2 = Inr st3" and
    r: "(\<exists>msg. assistant_message msg (st3, tn) = Inr (st', tn')) \<or> st' = st3"
    by (rule first_pass_record_Inr) blast
  from track_timestamps_effect[OF t]
  have "tokens st2 = tokens st \<and> messages st2 = messages st"
    by (auto simp: track_session_id_def split: option.splits)
  moreover from count_message_effect[OF c] have "tokens st3 = tokens st2" by auto
  ultimately have "well_formed st3"
    using assms(2) count_message_keys[OF c] by (simp add: s well_formed_def)
  with r show ?thesis
    by (auto simp: s' well_formed_def dest: assistant_message_keys)
qed

lemma analyze_session_well_formed:
  assumes "analyze_session loads dumps_len jsonl_path lines = Inr st"
  shows "well_formed st"
proof -
  from assms obtain st1 tn z where
    p1: "first_pass loads jsonl_path lines = Inr (st1, tn)" and
    z: "st = st1\<lparr>tool_result_sizes := z\<rparr>"
    by (rule analyze_session_Inr)
  have "well_formed (fst (st1, tn))"
  proof (rule for_each_invariant[OF p1[unfolded first_pass_def], where I = "\<lambda>s. well_formed (fst s)"])
    show "well_formed (fst (init_stats jsonl_path, []))"
      by (simp add: well_formed_def init_stats_def)
  next
    fix x t t'
    assume "well_formed (fst t)" "first_pass_line loads x t = Inr t'"
    then show "well_formed (fst t')"
      using first_pass_record_well_formed by (auto simp: first_pass_line_def split: option.splits)
  qed
  then show ?thesis by (simp add: z well_formed_def)
qed

subsection \<open>print_summary\<close>











text \<open>On statistics with the fixed keys the totals never miss a key.\<close>

lemma add_items_total:
  assumes "set (map fst items) \<subseteq> set (map fst d)"
  shows "\<exists>d'. for_each add_item items d = Inr d' \<and> map fst d' = map fst d"
  using assms
proof (induction items arbitrary: d)
  case Nil
  then show ?case by simp
next
  case (Cons item items)
  obtain k v where item: "item = (k, v)" by (cases item)
  with Cons.prems have "k \<in> fst ` set d" by simp
  then obtain x where "map_of d k = Some x"
    by (metis domD dom_map_of_conv_image_fst)
  then have s: "add_item item d = Inr (dict_set k (x + v) d)"
    by (simp add: add_item_def item dict_add_def)
  have k: "map fst (dict_set k (x + v) d) = map fst d"
    using \<open>k \<in> fst ` set d\<close> by (simp add: keys_dict_set)
  from Cons.prems have "set (map fst items) \<subseteq> set (map fst (dict_set k (x + v) d))"
    unfolding k by simp
  from Cons.IH[OF this] s k show ?case by simp
qed





subsection \<open>Exporting the statistics of runs\<close>

text \<open>On statistics with the fixed keys, as \<open>analyze_session\<close> builds them, the export returns.\<close>

lemma snapshot_add_total:
  assumes "well_formed st"
    and "map fst (total_tokens t) = [''input'', ''output'', ''cache_read'', ''cache_creation'']"
  shows "\<exists>t'. snapshot_add st t = Inr t'
     \<and> map fst (total_tokens t') = [''input'', ''output'', ''cache_read'', ''cache_creation'']"
proof -
  from assms have "set (map fst (tokens st)) \<subseteq> set (map fst (total_tokens t))"
    by (simp add: well_formed_def)
  from add_items_total[OF this] obtain tk where
    "for_each add_item (tokens st) (total_tokens t) = Inr tk" "map fst tk = map fst (total_tokens t)"
    by blast
  with assms(2) show ?thesis
    by (simp add: snapshot_add_def and_then_def)
qed

lemma export_snapshot_returns:
  assumes "list_all well_formed all_stats"
  shows "\<exists>fs' snap. export_snapshot dumps now fs all_stats output_path append_arg grafema_mcp note_arg
            = Inr (fs', snap)"
proof -
  let ?I = "\<lambda>t. map fst (total_tokens t) = [''input'', ''output'', ''cache_read'', ''cache_creation'']"
  have "\<exists>t. for_each snapshot_add all_stats snapshot_totals = Inr t \<and> ?I t"
  proof (rule for_each_returns[where I = ?I])
    show "?I snapshot_totals" by (simp add: snapshot_totals_def)
  next
    fix x and t :: totals
    assume "x \<in> set all_stats" and "?I t"
    with assms have "well_formed x" by (simp add: list_all_iff)
    from snapshot_add_total[OF this \<open>?I t\<close>] show "\<exists>t'. snapshot_add x t = Inr t' \<and> ?I t'" .
  qed
  then show ?thesis
    by (auto simp: export_snapshot_def and_then_def Let_def)
qed

subsection \<open>The invocation index and the tool-call counters\<close>

lemma counter_get_counter_add:
  "counter_get (counter_add k n d) k' = counter_get d k' + (if k' = k then n else 0)"
  by (simp add: counter_get_def counter_add_def map_of_dict_set)

lemma recorded_append: "recorded (u1 @ u2) = recorded u1 @ recorded u2"
  by (simp add: recorded_def)

lemma index_step_refl: "index_step [] s s"
  by (simp add: index_step_def recorded_def)

lemma index_step_trans:
  assumes "index_step u1 s t" and "index_step u2 t s'"
  shows "index_step (u1 @ u2) s s'"
proof -
  have "map_of (snd s') = map_of (snd t) ++ map_of (rev (recorded u2))"
    using assms(2) by (simp add: index_step_def)
  also have "map_of (snd t) = map_of (snd s) ++ map_of (rev (recorded u1))"
    using assms(1) by (simp add: index_step_def)
  finally have "map_of (snd s') = map_of (rev (recorded (u1 @ u2)) @ snd s)"
    by (simp add: recorded_append)
  with assms show ?thesis
    unfolding index_step_def by auto
qed

lemma index_step_cong:
  assumes "index_step uses s s'"
    and "tool_calls (fst t) = tool_calls (fst s)" "snd t = snd s"
    and "tool_calls (fst t') = tool_calls (fst s')" "snd t' = snd s'"
  shows "index_step uses t t'"
  using assms by (simp add: index_step_def)

lemma tool_use_block_step:
  assumes "tool_use_block block s = Inr s'"
  shows "index_step (block_tool_use block) s s'"
proof -
  obtain st tn where s: "s = (st, tn)" by (cases s)
  show ?thesis
  proof (cases block)
    case (JObj b)
    show ?thesis
    proof (cases "map_of b ''type'' = Some (JStr ''tool_use'')")
      case False
      with assms JObj have "s' = s" by (simp add: tool_use_block_def s)
      with False JObj show ?thesis by (simp add: block_tool_use_def index_step_refl)
    next
      case True
      let ?name = "case map_of b ''name'' of None \<Rightarrow> JStr ''unknown'' | Some n \<Rightarrow> n"
      let ?tid = "case map_of b ''id'' of None \<Rightarrow> JNull | Some i \<Rightarrow> i"
      obtain name tid where name: "name = ?name" and tid: "tid = ?tid" by blast
      have u: "block_tool_use block = [(name, tid)]"
        by (simp add: block_tool_use_def JObj True name tid)
      from assms have "and_then (hash_key name) (\<lambda>k.
             if truthy tid
             then and_then (hash_key tid)
                    (\<lambda>i. Inr (st\<lparr>tool_calls := counter_add k 1 (tool_calls st)\<rparr>, dict_set i name tn))
             else Inr (st\<lparr>tool_calls := counter_add k 1 (tool_calls st)\<rparr>, tn)) = Inr s'"
        unfolding tool_use_block_def s JObj name tid
        by (simp add: True Let_def)
      then obtain k where k: "hash_key name = Inr k" and
        r: "(if truthy tid
             then and_then (hash_key tid)
                    (\<lambda>i. Inr (st\<lparr>tool_calls := counter_add k 1 (tool_calls st)\<rparr>, dict_set i name tn))
             else Inr (st\<lparr>tool_calls := counter_add k 1 (tool_calls st)\<rparr>, tn)) = Inr s'"
        unfolding and_then_Inr[of "hash_key name"] by blast
      show ?thesis
      proof (cases "truthy tid")
        case False
        with r have "s' = (st\<lparr>tool_calls := counter_add k 1 (tool_calls st)\<rparr>, tn)" by simp
        with False k show ?thesis
          by (auto simp: index_step_def u s recorded_def binding_def named_def counter_get_counter_add)
      next
        case True
        with r obtain i where i: "hash_key tid = Inr i"
          and "s' = (st\<lparr>tool_calls := counter_add k 1 (tool_calls st)\<rparr>, dict_set i name tn)"
          by (auto simp: and_then_Inr)
        with True k show ?thesis
          by (auto simp: index_step_def u s recorded_def binding_def named_def
              counter_get_counter_add map_of_dict_set)
      qed
    qed
  qed (use assms in \<open>simp_all add: tool_use_block_def block_tool_use_def s index_step_refl\<close>)
qed

lemma tool_use_blocks_step:
  assumes "for_each tool_use_block blocks s = Inr s'"
  shows "index_step (concat (map block_tool_use blocks)) s s'"
  using assms
proof (induction blocks arbitrary: s)
  case Nil
  then show ?case by (simp add: index_step_refl)
next
  case (Cons b bs)
  then obtain t where t: "tool_use_block b s = Inr t" and r: "for_each tool_use_block bs t = Inr s'"
    by (auto split: sum.splits)
  from index_step_trans[OF tool_use_block_step[OF t] Cons.IH[OF r]] show ?case by simp
qed

lemma assistant_message_step:
  assumes "assistant_message msg (st, tn) = Inr (st', tn')"
  shows "\<exists>blocks. and_then (get_default msg ''content'' (JList [])) iterate = Inr blocks
           \<and> index_step (concat (map block_tool_use blocks)) (st, tn) (st', tn')"
proof -
  from assms obtain usage st1 st2 st3 st4 st5 content blocks where
    a1: "add_token ''input'' usage ''input_tokens'' st = Inr st1" and
    a2: "add_token ''output'' usage ''output_tokens'' st1 = Inr st2" and
    a3: "add_token ''cache_read'' usage ''cache_read_input_tokens'' st2 = Inr st3" and
    a4: "add_token ''cache_creation'' usage ''cache_creation_input_tokens'' st3 = Inr st4" and
    m: "track_model msg usage st4 = Inr st5" and
    c: "get_default msg ''content'' (JList []) = Inr content" "iterate content = Inr blocks" and
    b: "for_each tool_use_block blocks (st5, tn) = Inr (st', tn')"
    by (rule assistant_message_Inr)
  from add_token_Inr[OF a1] obtain t1 where "st1 = st\<lparr>tokens := t1\<rparr>" by blast
  moreover from add_token_Inr[OF a2] obtain t2 where "st2 = st1\<lparr>tokens := t2\<rparr>" by blast
  moreover from add_token_Inr[OF a3] obtain t3 where "st3 = st2\<lparr>tokens := t3\<rparr>" by blast
  moreover from add_token_Inr[OF a4] obtain t4 where "st4 = st3\<lparr>tokens := t4\<rparr>" by blast
  moreover from track_model_Inr[OF m] obtain mo where "st5 = st4\<lparr>models := mo\<rparr>" by blast
  ultimately have "tool_calls st5 = tool_calls st" by simp
  with tool_use_blocks_step[OF b]
  have "index_step (concat (map block_tool_use blocks)) (st, tn) (st', tn')"
    by (auto elim: index_step_cong)
  with c show ?thesis by (simp add: and_then_def)
qed

lemma first_pass_record_step:
  assumes "first_pass_record obj s = Inr s'"
  shows "index_step (record_tool_uses obj) s s'"
proof -
  obtain st tn where s: "s = (st, tn)" by (cases s)
  obtain st' tn' where s': "s' = (st', tn')" by (cases s')
  from assms[unfolded s s'] obtain ob st2 st3 where ob: "obj = JObj ob" and
    t: "track_timestamps ob (track_session_id ob st) = Inr st2" and
    c: "count_message (case map_of ob ''type'' of None \<Rightarrow> JNull | Some t \<Rightarrow> t) st2 = Inr st3" and
    r: "(map_of ob ''type'' = Some (JStr ''assistant'') \<and>
          (\<exists>msg. map_of ob ''message'' = Some msg \<and> assistant_message msg (st3, tn) = Inr (st', tn')))
        \<or> (\<not> (map_of ob ''type'' = Some (JStr ''assistant'') \<and> map_of ob ''message'' \<noteq> None)
            \<and> st' = st3 \<and> tn' = tn)"
    by (rule first_pass_record_Inr)
  from track_timestamps_effect[OF t] count_message_effect[OF c]
  have tc: "tool_calls st3 = tool_calls st"
    by (auto simp: track_session_id_def split: option.splits)
  from r show ?thesis
  proof
    assume a: "map_of ob ''type'' = Some (JStr ''assistant'') \<and>
          (\<exists>msg. map_of ob ''message'' = Some msg \<and> assistant_message msg (st3, tn) = Inr (st', tn'))"
    then obtain msg where msg: "map_of ob ''message'' = Some msg"
      and am: "assistant_message msg (st3, tn) = Inr (st', tn')" by blast
    from assistant_message_step[OF am] obtain blocks where
      bl: "and_then (get_default msg ''content'' (JList [])) iterate = Inr blocks" and
      st: "index_step (concat (map block_tool_use blocks)) (st3, tn) (st', tn')" by blast
    have "record_tool_uses obj = concat (map block_tool_use blocks)"
      using a msg bl by (simp add: record_tool_uses_def ob)
    with st tc show ?thesis
      unfolding s s' by (auto elim: index_step_cong)
  next
    assume n: "\<not> (map_of ob ''type'' = Some (JStr ''assistant'') \<and> map_of ob ''message'' \<noteq> None)
            \<and> st' = st3 \<and> tn' = tn"
    then have "record_tool_uses obj = []"
      by (auto simp: record_tool_uses_def ob split: option.splits)
    moreover have "index_step [] (st, tn) (st3, tn)"
      using tc by (auto intro: index_step_cong[OF index_step_refl[of "(st, tn)"]])
    ultimately show ?thesis using n by (simp add: s s')
  qed
qed

lemma first_pass_step:
  assumes "for_each (first_pass_line loads) lines s = Inr s'"
  shows "index_step (tool_uses loads lines) s s'"
  using assms
proof (induction lines arbitrary: s)
  case Nil
  then show ?case by (simp add: tool_uses_def index_step_refl)
next
  case (Cons l ls)
  then obtain t where t: "first_pass_line loads l s = Inr t" and r: "for_each (first_pass_line loads) ls t = Inr s'"
    by (auto split: sum.splits)
  have "index_step (case loads l of None \<Rightarrow> [] | Some obj \<Rightarrow> record_tool_uses obj) s t"
    using t by (cases "loads l") (auto simp: first_pass_line_def index_step_refl first_pass_record_step)
  from index_step_trans[OF this Cons.IH[OF r]] show ?case
    by (simp add: tool_uses_def)
qed

lemma first_pass_index:
  assumes "first_pass loads jsonl_path lines = Inr (st, tool_names)"
  shows "map_of tool_names = map_of (rev (recorded (tool_uses loads lines)))"
    and "counter_get (tool_calls st) k = int (length (filter (named k) (tool_uses loads lines)))"
    and "u \<in> set (tool_uses loads lines) \<Longrightarrow> \<exists>k. hash_key (fst u) = Inr k"
    and "u \<in> set (tool_uses loads lines) \<Longrightarrow> truthy (snd u) \<Longrightarrow> \<exists>k. hash_key (snd u) = Inr k"
  using first_pass_step[OF assms[unfolded first_pass_def]]
  by (auto simp: index_step_def init_stats_def counter_get_def)

text \<open>The bindings in file order: the last one of a key is the one the index holds.\<close>

lemma map_of_rev_recorded_last:
  assumes "uses = pre @ (n, i) # post" and "truthy i" and "hash_key i = Inr k"
    and "k \<notin> fst ` set (recorded post)"
  shows "map_of (rev (recorded uses)) k = Some n"
proof -
  have "recorded uses = recorded pre @ [(k, n)] @ recorded post"
    using assms(1-3) by (simp add: recorded_def binding_def)
  then have "map_of (rev (recorded uses)) k = (map_of (rev (recorded pre)) ++ map_of [(k, n)] ++ map_of (rev (recorded post))) k"
    by (simp add: map_add_assoc)
  moreover have "map_of (rev (recorded post)) k = None"
    using assms(4) by (simp add: map_of_eq_None_iff)
  ultimately show ?thesis by (simp add: map_add_def)
qed

lemma map_of_rev_recorded_Some:
  assumes "map_of (rev (recorded uses)) k = Some n"
  shows "\<exists>i. (n, i) \<in> set uses \<and> truthy i \<and> hash_key i = Inr k"
proof -
  from assms have "(k, n) \<in> set (recorded uses)"
    by (auto dest: map_of_SomeD)
  then obtain u where u: "u \<in> set uses" "(k, n) \<in> set (binding u)"
    by (auto simp: recorded_def)
  obtain m i where mi: "u = (m, i)" by (cases u)
  have t: "truthy i"
    using u(2) unfolding mi binding_def by (cases "truthy i") simp_all
  have "hash_key i = Inr k \<and> m = n"
    using u(2) t unfolding mi binding_def by (cases "hash_key i") simp_all
  with u(1) t show ?thesis
    unfolding mi by blast
qed

text \<open>
  Claim C7, as amended. When the first pass completes, the counter of a tool name is
  the number of \<^verbatim>\<open>tool_use\<close> blocks of that name in the assistant records, whether or
  not a block carries an identifier. A block whose identifier is truthy is recorded in
  the index: the identifier is mapped to the name of the last block that carries it
  (a later block with the same identifier replaces the binding). A block whose
  identifier is absent or falsy records nothing: every binding of the index comes from
  a block with a truthy identifier.
\<close>

theorem tool_use_blocks_indexed:
  assumes "first_pass loads jsonl_path lines = Inr (st, tool_names)"
  shows "(\<forall>k. counter_get (tool_calls st) k = int (length (filter (named k) (tool_uses loads lines))))
     \<and> (\<forall>pre n i post k.
          tool_uses loads lines = pre @ (n, i) # post \<and> truthy i \<and> hash_key i = Inr k
            \<and> k \<notin> fst ` set (recorded post)
          \<longrightarrow> map_of tool_names k = Some n)
     \<and> (\<forall>u \<in> set (tool_uses loads lines). truthy (snd u) \<longrightarrow>
          (\<exists>k. hash_key (snd u) = Inr k \<and> map_of tool_names k \<noteq> None))
     \<and> (\<forall>k n. map_of tool_names k = Some n \<longrightarrow>
          (\<exists>i. (n, i) \<in> set (tool_uses loads lines) \<and> truthy i \<and> hash_key i = Inr k))"
proof -
  note ix = first_pass_index[OF assms]
  have a: "\<forall>k. counter_get (tool_calls st) k = int (length (filter (named k) (tool_uses loads lines)))"
    using ix(2) by simp
  have b: "map_of tool_names k = Some n"
    if "tool_uses loads lines = pre @ (n, i) # post" "truthy i" "hash_key i = Inr k"
       "k \<notin> fst ` set (recorded post)" for pre n i post k
    unfolding ix(1) using that by (rule map_of_rev_recorded_last)
  have c: "\<exists>k. hash_key (snd u) = Inr k \<and> map_of tool_names k \<noteq> None"
    if u: "u \<in> set (tool_uses loads lines)" and t: "truthy (snd u)" for u
  proof -
    from ix(4)[OF u t] obtain k where k: "hash_key (snd u) = Inr k" by blast
    with u t have "(k, fst u) \<in> set (recorded (tool_uses loads lines))"
      by (auto simp: recorded_def binding_def intro!: bexI[of _ u])
    then have "k \<in> fst ` set (rev (recorded (tool_uses loads lines)))" by force
    then have "map_of tool_names k \<noteq> None"
      unfolding ix(1) by (simp add: map_of_eq_None_iff)
    with k show ?thesis by blast
  qed
  have d: "\<exists>i. (n, i) \<in> set (tool_uses loads lines) \<and> truthy i \<and> hash_key i = Inr k"
    if "map_of tool_names k = Some n" for k n
  proof -
    from that have "map_of (rev (recorded (tool_uses loads lines))) k = Some n"
      by (simp add: ix(1))
    then show ?thesis by (rule map_of_rev_recorded_Some)
  qed
  from a b c d show ?thesis by blast
qed

theorem tool_use_blocks_indexed_witness:
  "first_pass Some ''session.jsonl''
      [tool_use_record ''Read'' (JStr ''''), tool_use_record ''Read'' (JStr ''t2''),
       tool_use_record ''Bash'' (JStr ''t2'')] =
     Inr ((init_stats ''session.jsonl'')
            \<lparr>messages := [(''user'', 0), (''assistant'', 3), (''system'', 0)],
             tool_calls := [(KStr ''Read'', 2), (KStr ''Bash'', 1)],
             models := [(KStr ''unknown'', \<lparr>m_input = 0, m_output = 0, m_calls = 3\<rparr>)]\<rparr>,
          [(KStr ''t2'', JStr ''Bash'')])
   \<and> tool_uses Some
      [tool_use_record ''Read'' (JStr ''''), tool_use_record ''Read'' (JStr ''t2''),
       tool_use_record ''Bash'' (JStr ''t2'')] =
     [(JStr ''Read'', JStr ''''), (JStr ''Read'', JStr ''t2'')] @ (JStr ''Bash'', JStr ''t2'') # []
   \<and> counter_get [(KStr ''Read'', 2), (KStr ''Bash'', 1)] (KStr ''Read'') =
       int (length (filter (named (KStr ''Read''))
         [(JStr ''Read'', JStr ''''), (JStr ''Read'', JStr ''t2''), (JStr ''Bash'', JStr ''t2'')]))
   \<and> map_of [(KStr ''t2'', JStr ''Bash'')] (KStr ''t2'') = Some (JStr ''Bash'')"
proof -
  let ?L = "[tool_use_record ''Read'' (JStr ''''), tool_use_record ''Read'' (JStr ''t2''),
       tool_use_record ''Bash'' (JStr ''t2'')]"
  let ?R = "(init_stats ''session.jsonl'')
            \<lparr>messages := [(''user'', 0), (''assistant'', 3), (''system'', 0)],
             tool_calls := [(KStr ''Read'', 2), (KStr ''Bash'', 1)],
             models := [(KStr ''unknown'', \<lparr>m_input = 0, m_output = 0, m_calls = 3\<rparr>)]\<rparr>"
  have run: "first_pass Some ''session.jsonl'' ?L = Inr (?R, [(KStr ''t2'', JStr ''Bash'')])"
    by (simp add: pass_defs tool_use_record_def)
  have uses: "tool_uses Some ?L =
     [(JStr ''Read'', JStr ''''), (JStr ''Read'', JStr ''t2'')] @ (JStr ''Bash'', JStr ''t2'') # []"
    by (simp add: tool_uses_def record_tool_uses_def block_tool_use_def tool_use_record_def and_then_def)
  have h: "truthy (JStr ''t2'')" "hash_key (JStr ''t2'') = Inr (KStr ''t2'')"
    "KStr ''t2'' \<notin> fst ` set (recorded [])"
    by (simp_all add: recorded_def)
  from tool_use_blocks_indexed[OF run] have
    c: "counter_get (tool_calls ?R) (KStr ''Read'') = int (length (filter (named (KStr ''Read'')) (tool_uses Some ?L)))"
    and m: "tool_uses Some ?L = [(JStr ''Read'', JStr ''''), (JStr ''Read'', JStr ''t2'')] @ (JStr ''Bash'', JStr ''t2'') # []
        \<and> truthy (JStr ''t2'') \<and> hash_key (JStr ''t2'') = Inr (KStr ''t2'') \<and> KStr ''t2'' \<notin> fst ` set (recorded [])
       \<longrightarrow> map_of [(KStr ''t2'', JStr ''Bash'')] (KStr ''t2'') = Some (JStr ''Bash'')"
    by blast+
  from c m run uses h show ?thesis by (simp add: init_stats_def)
qed

text \<open>
  The claim as it was stated fails for an identifier that is the empty string: line 90
  tests \<^verbatim>\<open>if tool_id:\<close>, so the block is counted and nothing is recorded for it.
\<close>

theorem empty_identifier_not_indexed:
  "first_pass Some ''session.jsonl'' [tool_use_record ''Read'' (JStr '''')] =
     Inr ((init_stats ''session.jsonl'')
            \<lparr>messages := [(''user'', 0), (''assistant'', 1), (''system'', 0)],
             tool_calls := [(KStr ''Read'', 1)],
             models := [(KStr ''unknown'', \<lparr>m_input = 0, m_output = 0, m_calls = 1\<rparr>)]\<rparr>,
          [])
   \<and> tool_uses Some [tool_use_record ''Read'' (JStr '''')] = [(JStr ''Read'', JStr '''')]"
  by (simp add: pass_defs tool_use_record_def tool_uses_def record_tool_uses_def block_tool_use_def)

subsection \<open>Attribution of the tool results\<close>

lemma size_get_dict_set:
  "size_get (dict_set k e d) k' = (if k' = k then e else size_get d k')"
  by (simp add: size_get_def map_of_dict_set)

lemma size_of_results_Nil [simp]:
  "size_of_results dl tn k [] = \<lparr>count = 0, total_chars = 0\<rparr>"
  by (simp add: size_of_results_def)

lemma size_of_results_append:
  "size_of_results dl tn k (r1 @ r2) = size_add (size_of_results dl tn k r1) (size_of_results dl tn k r2)"
  by (simp add: size_of_results_def size_add_def)

lemma size_add_zero [simp]: "size_add a \<lparr>count = 0, total_chars = 0\<rparr> = a"
  by (simp add: size_add_def)

lemma size_add_assoc: "size_add (size_add a b) c = size_add a (size_add b c)"
  by (simp add: size_add_def)

lemma sizes_step_refl: "sizes_step dl tn [] st st"
  by (simp add: sizes_step_def)

lemma sizes_step_trans:
  assumes "sizes_step dl tn r1 st t" and "sizes_step dl tn r2 t st'"
  shows "sizes_step dl tn (r1 @ r2) st st'"
  using assms unfolding sizes_step_def
  by (auto simp: size_of_results_append size_add_assoc)

lemma tool_result_block_step:
  assumes "tool_result_block dl tn block st = Inr st'"
  shows "sizes_step dl tn (block_tool_result block) st st'"
proof (cases block)
  case (JObj b)
  show ?thesis
  proof (cases "map_of b ''type'' = Some (JStr ''tool_result'')")
    case False
    with assms JObj have "st' = st" by (simp add: tool_result_block_def)
    with False JObj show ?thesis by (simp add: block_tool_result_def sizes_step_refl)
  next
    case True
    let ?tid = "case map_of b ''tool_use_id'' of None \<Rightarrow> JNull | Some i \<Rightarrow> i"
    let ?content = "case map_of b ''content'' of None \<Rightarrow> JStr [] | Some c \<Rightarrow> c"
    obtain tid content where tid: "tid = ?tid" and content: "content = ?content" by blast
    have u: "block_tool_result block = [(tid, content)]"
      by (simp add: block_tool_result_def JObj True tid content)
    from assms have "and_then (hash_key tid) (\<lambda>i.
          and_then (hash_key (case map_of tn i of None \<Rightarrow> JStr ''unknown'' | Some n \<Rightarrow> n)) (\<lambda>k.
            Inr (st\<lparr>tool_result_sizes :=
                   dict_set k \<lparr>count = count (size_get (tool_result_sizes st) k) + 1,
                               total_chars = total_chars (size_get (tool_result_sizes st) k)
                                 + content_size dl content\<rparr>
                     (tool_result_sizes st)\<rparr>))) = Inr st'"
      unfolding tool_result_block_def JObj tid content by (simp add: True Let_def)
    then obtain i k where i: "hash_key tid = Inr i"
      and k: "hash_key (case map_of tn i of None \<Rightarrow> JStr ''unknown'' | Some n \<Rightarrow> n) = Inr k"
      and st': "st' = st\<lparr>tool_result_sizes :=
                   dict_set k \<lparr>count = count (size_get (tool_result_sizes st) k) + 1,
                               total_chars = total_chars (size_get (tool_result_sizes st) k)
                                 + content_size dl content\<rparr>
                     (tool_result_sizes st)\<rparr>"
      unfolding and_then_Inr by auto
    have res: "resolve tn tid = Inr k"
      by (simp add: resolve_def i k and_then_def)
    show ?thesis
      unfolding sizes_step_def u st'
      by (auto simp: size_get_dict_set size_of_results_def attributed_def res size_add_def)
  qed
qed (use assms in \<open>simp_all add: tool_result_block_def block_tool_result_def sizes_step_refl\<close>)

lemma tool_result_blocks_step:
  assumes "for_each (tool_result_block dl tn) blocks st = Inr st'"
  shows "sizes_step dl tn (concat (map block_tool_result blocks)) st st'"
  using assms
proof (induction blocks arbitrary: st)
  case Nil
  then show ?case by (simp add: sizes_step_refl)
next
  case (Cons b bs)
  then obtain t where t: "tool_result_block dl tn b st = Inr t"
    and r: "for_each (tool_result_block dl tn) bs t = Inr st'"
    by (auto split: sum.splits)
  from sizes_step_trans[OF tool_result_block_step[OF t] Cons.IH[OF r]] show ?case by simp
qed

lemma second_pass_record_step:
  assumes "second_pass_record dl tn obj st = Inr st'"
  shows "sizes_step dl tn (record_tool_results obj) st st'"
proof (cases obj)
  case (JObj ob)
  show ?thesis
  proof (cases "map_of ob ''type'' = Some (JStr ''user'')")
    case False
    with assms JObj show ?thesis
      by (simp add: second_pass_record_def record_tool_results_def sizes_step_refl)
  next
    case True
    show ?thesis
    proof (cases "map_of ob ''message''")
      case None
      with assms JObj True show ?thesis
        by (simp add: second_pass_record_def record_tool_results_def sizes_step_refl)
    next
      case (Some msg)
      with assms JObj True obtain content where
        g: "get_default msg ''content'' JNull = Inr content" and
        c: "(case content of JList blocks \<Rightarrow> for_each (tool_result_block dl tn) blocks st
             | _ \<Rightarrow> Inr st) = Inr st'"
        by (auto simp: second_pass_record_def and_then_Inr)
      show ?thesis
      proof (cases content)
        case (JList blocks)
        with c have "for_each (tool_result_block dl tn) blocks st = Inr st'" by simp
        from tool_result_blocks_step[OF this] show ?thesis
          by (simp add: record_tool_results_def JObj True Some g JList)
      qed (use c g in \<open>simp_all add: record_tool_results_def JObj True Some sizes_step_refl\<close>)
    qed
  qed
qed (use assms in \<open>simp_all add: second_pass_record_def\<close>)

lemma second_pass_step:
  assumes "for_each (second_pass_line loads dl tn) lines st = Inr st'"
  shows "sizes_step dl tn (tool_results loads lines) st st'"
  using assms
proof (induction lines arbitrary: st)
  case Nil
  then show ?case by (simp add: tool_results_def sizes_step_refl)
next
  case (Cons l ls)
  then obtain t where t: "second_pass_line loads dl tn l st = Inr t"
    and r: "for_each (second_pass_line loads dl tn) ls t = Inr st'"
    by (auto split: sum.splits)
  have "sizes_step dl tn (case loads l of None \<Rightarrow> [] | Some obj \<Rightarrow> record_tool_results obj) st t"
    using t by (cases "loads l") (auto simp: second_pass_line_def sizes_step_refl second_pass_record_step)
  from sizes_step_trans[OF this Cons.IH[OF r]] show ?case
    by (simp add: tool_results_def)
qed

lemma first_pass_record_frame:
  assumes "first_pass_record obj (st, tn) = Inr (st', tn')"
  shows "tool_result_sizes st' = tool_result_sizes st \<and> file_path st' = file_path st"
proof -
  from assms obtain ob st2 st3 where
    t: "track_timestamps ob (track_session_id ob st) = Inr st2" and
    c: "count_message (case map_of ob ''type'' of None \<Rightarrow> JNull | Some t \<Rightarrow> t) st2 = Inr st3" and
    r: "(\<exists>msg. assistant_message msg (st3, tn) = Inr (st', tn')) \<or> st' = st3"
    by (rule first_pass_record_Inr) blast
  from track_timestamps_effect[OF t] count_message_effect[OF c]
  have 3: "tool_result_sizes st3 = tool_result_sizes st \<and> file_path st3 = file_path st"
    by (auto simp: track_session_id_def split: option.splits)
  from r show ?thesis
  proof
    assume "\<exists>msg. assistant_message msg (st3, tn) = Inr (st', tn')"
    then obtain msg where "assistant_message msg (st3, tn) = Inr (st', tn')" by blast
    from assistant_message_effect[OF this] obtain tk m c where
      "st' = st3\<lparr>tokens := tk, models := m, tool_calls := c\<rparr>" by blast
    with 3 show ?thesis by simp
  next
    assume "st' = st3"
    with 3 show ?thesis by simp
  qed
qed

lemma first_pass_frame:
  assumes "first_pass loads jsonl_path lines = Inr (st, tn)"
  shows "tool_result_sizes st = [] \<and> file_path st = jsonl_path"
proof -
  let ?I = "\<lambda>s. tool_result_sizes (fst s) = [] \<and> file_path (fst s) = jsonl_path"
  have "?I (st, tn)"
  proof (rule for_each_invariant[OF assms[unfolded first_pass_def], where I = ?I])
    show "?I (init_stats jsonl_path, [])" by (simp add: init_stats_def)
  next
    fix x t t'
    assume i: "?I t" and r: "first_pass_line loads x t = Inr t'"
    obtain a b where t: "t = (a, b)" by (cases t)
    obtain a' b' where t': "t' = (a', b')" by (cases t')
    show "?I t'"
    proof (cases "loads x")
      case None
      with i r show ?thesis by (simp add: first_pass_line_def)
    next
      case (Some obj)
      with r have "first_pass_record obj (a, b) = Inr (a', b')"
        by (simp add: first_pass_line_def t t')
      from first_pass_record_frame[OF this] i show ?thesis by (simp add: t t')
    qed
  qed
  then show ?thesis by simp
qed

lemma resolve_bound:
  assumes "hash_key tid = Inr k" and "map_of tn k = Some n"
  shows "resolve tn tid = hash_key n"
  using assms by (simp add: resolve_def and_then_def)

lemma resolve_absent:
  assumes "hash_key tid = Inr k" and "map_of tn k = None"
  shows "resolve tn tid = Inr (KStr ''unknown'')"
  using assms by (simp add: resolve_def and_then_def)

lemma tool_result_block_absent:
  assumes "map_of b ''type'' = Some (JStr ''tool_result'')"
    and "hash_key (case map_of b ''tool_use_id'' of None \<Rightarrow> JNull | Some i \<Rightarrow> i) = Inr k"
    and "map_of tn k = None"
  shows "tool_result_block dl tn (JObj b) st =
     Inr (st\<lparr>tool_result_sizes :=
            dict_set (KStr ''unknown'')
              \<lparr>count = count (size_get (tool_result_sizes st) (KStr ''unknown'')) + 1,
               total_chars = total_chars (size_get (tool_result_sizes st) (KStr ''unknown''))
                 + content_size dl (case map_of b ''content'' of None \<Rightarrow> JStr [] | Some c \<Rightarrow> c)\<rparr>
              (tool_result_sizes st)\<rparr>)"
  using assms by (simp add: tool_result_block_def and_then_def Let_def)

text \<open>
  Claim C1, as amended. When \<open>analyze_session\<close> returns, every \<^verbatim>\<open>tool_result\<close> block of
  the file is attributed through the index the first pass built from the whole file,
  wherever the block stands. A result whose identifier is the truthy identifier of a
  \<^verbatim>\<open>tool_use\<close> block that no later \<^verbatim>\<open>tool_use\<close> block rebinds is attributed to the name of
  that block, also when the block comes after the result. A result whose identifier is
  hashable and absent from the index is attributed to \<^verbatim>\<open>unknown\<close>, and such a block
  never makes the second pass raise.
\<close>

theorem tool_results_attributed:
  assumes "analyze_session loads dumps_len jsonl_path lines = Inr st"
  shows "\<exists>st1 tool_names.
       first_pass loads jsonl_path lines = Inr (st1, tool_names)
     \<and> (\<forall>k. size_get (tool_result_sizes st) k =
              size_of_results dumps_len tool_names k (tool_results loads lines))
     \<and> (\<forall>pre n i post k r.
          tool_uses loads lines = pre @ (n, i) # post \<and> truthy i \<and> hash_key i = Inr k
            \<and> k \<notin> fst ` set (recorded post)
            \<and> r \<in> set (tool_results loads lines) \<and> hash_key (fst r) = Inr k
          \<longrightarrow> resolve tool_names (fst r) = hash_key n \<and> (\<exists>kn. hash_key n = Inr kn))
     \<and> (\<forall>r k. r \<in> set (tool_results loads lines) \<and> hash_key (fst r) = Inr k
                \<and> map_of tool_names k = None
          \<longrightarrow> resolve tool_names (fst r) = Inr (KStr ''unknown''))
     \<and> (\<forall>b k st0. map_of b ''type'' = Some (JStr ''tool_result'')
            \<and> hash_key (case map_of b ''tool_use_id'' of None \<Rightarrow> JNull | Some i \<Rightarrow> i) = Inr k
            \<and> map_of tool_names k = None
          \<longrightarrow> tool_result_block dumps_len tool_names (JObj b) st0 =
               Inr (st0\<lparr>tool_result_sizes :=
                      dict_set (KStr ''unknown'')
                        \<lparr>count = count (size_get (tool_result_sizes st0) (KStr ''unknown'')) + 1,
                         total_chars = total_chars (size_get (tool_result_sizes st0) (KStr ''unknown''))
                           + content_size dumps_len
                               (case map_of b ''content'' of None \<Rightarrow> JStr [] | Some c \<Rightarrow> c)\<rparr>
                        (tool_result_sizes st0)\<rparr>))"
proof -
  from assms obtain st1 tn z where
    p1: "first_pass loads jsonl_path lines = Inr (st1, tn)" and
    p2: "for_each (second_pass_line loads dumps_len tn) lines st1 = Inr st"
    by (rule analyze_session_Inr)
  note ix = first_pass_index[OF p1]
  from first_pass_frame[OF p1] have e: "tool_result_sizes st1 = []" by simp
  from second_pass_step[OF p2] have
    a: "\<forall>k. size_get (tool_result_sizes st) k = size_of_results dumps_len tn k (tool_results loads lines)"
    by (simp add: sizes_step_def e size_get_def size_add_def)
  have b: "resolve tn (fst r) = hash_key n \<and> (\<exists>kn. hash_key n = Inr kn)"
    if u: "tool_uses loads lines = pre @ (n, i) # post" and t: "truthy i" and h: "hash_key i = Inr k"
      and l: "k \<notin> fst ` set (recorded post)" and r: "hash_key (fst r) = Inr k"
    for pre n i post k r
  proof -
    have "map_of tn k = Some n"
      unfolding ix(1) using u t h l by (rule map_of_rev_recorded_last)
    with r have "resolve tn (fst r) = hash_key n" by (rule resolve_bound)
    moreover have "(n, i) \<in> set (tool_uses loads lines)" by (simp add: u)
    from ix(3)[OF this] have "\<exists>kn. hash_key n = Inr kn" by simp
    ultimately show ?thesis by simp
  qed
  have c: "resolve tn (fst r) = Inr (KStr ''unknown'')"
    if "hash_key (fst r) = Inr k" "map_of tn k = None" for r k
    using that by (rule resolve_absent)
  from p1 a b c tool_result_block_absent[of _ _ tn dumps_len] show ?thesis
    by (intro exI[of _ st1] exI[of _ tn]) blast
qed

theorem tool_results_attributed_witness:
  "analyze_session Some no_dumps ''session.jsonl''
      [tool_result_record (JStr ''t1'') ''hello'', tool_result_record (JStr ''t9'') ''abc'',
       tool_use_record ''Read'' (JStr ''t1'')] =
     Inr ((init_stats ''session.jsonl'')
            \<lparr>messages := [(''user'', 2), (''assistant'', 1), (''system'', 0)],
             tool_calls := [(KStr ''Read'', 1)],
             tool_result_sizes := [(KStr ''Read'', \<lparr>count = 1, total_chars = 5\<rparr>),
                                   (KStr ''unknown'', \<lparr>count = 1, total_chars = 3\<rparr>)],
             models := [(KStr ''unknown'', \<lparr>m_input = 0, m_output = 0, m_calls = 1\<rparr>)]\<rparr>)
   \<and> tool_uses Some
      [tool_result_record (JStr ''t1'') ''hello'', tool_result_record (JStr ''t9'') ''abc'',
       tool_use_record ''Read'' (JStr ''t1'')] = [] @ (JStr ''Read'', JStr ''t1'') # []
   \<and> tool_results Some
      [tool_result_record (JStr ''t1'') ''hello'', tool_result_record (JStr ''t9'') ''abc'',
       tool_use_record ''Read'' (JStr ''t1'')] = [(JStr ''t1'', JStr ''hello''), (JStr ''t9'', JStr ''abc'')]
   \<and> resolve [(KStr ''t1'', JStr ''Read'')] (JStr ''t1'') = hash_key (JStr ''Read'')
   \<and> resolve [(KStr ''t1'', JStr ''Read'')] (JStr ''t9'') = Inr (KStr ''unknown'')
   \<and> size_of_results no_dumps [(KStr ''t1'', JStr ''Read'')] (KStr ''Read'')
        [(JStr ''t1'', JStr ''hello''), (JStr ''t9'', JStr ''abc'')] = \<lparr>count = 1, total_chars = 5\<rparr>"
proof -
  let ?L = "[tool_result_record (JStr ''t1'') ''hello'', tool_result_record (JStr ''t9'') ''abc'',
       tool_use_record ''Read'' (JStr ''t1'')]"
  let ?R = "(init_stats ''session.jsonl'')
            \<lparr>messages := [(''user'', 2), (''assistant'', 1), (''system'', 0)],
             tool_calls := [(KStr ''Read'', 1)],
             tool_result_sizes := [(KStr ''Read'', \<lparr>count = 1, total_chars = 5\<rparr>),
                                   (KStr ''unknown'', \<lparr>count = 1, total_chars = 3\<rparr>)],
             models := [(KStr ''unknown'', \<lparr>m_input = 0, m_output = 0, m_calls = 1\<rparr>)]\<rparr>"
  let ?tn = "[(KStr ''t1'', JStr ''Read'')]"
  have run: "analyze_session Some no_dumps ''session.jsonl'' ?L = Inr ?R"
    by (simp add: pass_defs tool_use_record_def tool_result_record_def)
  have p1: "first_pass Some ''session.jsonl'' ?L =
     Inr ((init_stats ''session.jsonl'')
            \<lparr>messages := [(''user'', 2), (''assistant'', 1), (''system'', 0)],
             tool_calls := [(KStr ''Read'', 1)],
             models := [(KStr ''unknown'', \<lparr>m_input = 0, m_output = 0, m_calls = 1\<rparr>)]\<rparr>, ?tn)"
    by (simp add: pass_defs tool_use_record_def tool_result_record_def)
  have uses: "tool_uses Some ?L = [] @ (JStr ''Read'', JStr ''t1'') # []"
    by (simp add: tool_uses_def record_tool_uses_def block_tool_use_def tool_use_record_def
        tool_result_record_def and_then_def)
  have results: "tool_results Some ?L = [(JStr ''t1'', JStr ''hello''), (JStr ''t9'', JStr ''abc'')]"
    by (simp add: tool_results_def record_tool_results_def block_tool_result_def tool_use_record_def
        tool_result_record_def)
  from tool_results_attributed[OF run] obtain st1 tn where
    f: "first_pass Some ''session.jsonl'' ?L = Inr (st1, tn)" and
    A: "\<forall>k. size_get (tool_result_sizes ?R) k = size_of_results no_dumps tn k (tool_results Some ?L)" and
    B: "\<forall>pre n i post k r.
          tool_uses Some ?L = pre @ (n, i) # post \<and> truthy i \<and> hash_key i = Inr k
            \<and> k \<notin> fst ` set (recorded post)
            \<and> r \<in> set (tool_results Some ?L) \<and> hash_key (fst r) = Inr k
          \<longrightarrow> resolve tn (fst r) = hash_key n \<and> (\<exists>kn. hash_key n = Inr kn)" and
    C: "\<forall>r k. r \<in> set (tool_results Some ?L) \<and> hash_key (fst r) = Inr k \<and> map_of tn k = None
          \<longrightarrow> resolve tn (fst r) = Inr (KStr ''unknown'')"
    by blast
  from f p1 have tn: "tn = ?tn" by simp
  from A[rule_format, of "KStr ''Read''"] have
    a: "size_get (tool_result_sizes ?R) (KStr ''Read'') =
          size_of_results no_dumps ?tn (KStr ''Read'') (tool_results Some ?L)"
    unfolding tn .
  from B[rule_format, of "[]" "JStr ''Read''" "JStr ''t1''" "[]" "KStr ''t1''" "(JStr ''t1'', JStr ''hello'')"]
  have b: "tool_uses Some ?L = [] @ (JStr ''Read'', JStr ''t1'') # [] \<and> truthy (JStr ''t1'')
          \<and> hash_key (JStr ''t1'') = Inr (KStr ''t1'') \<and> KStr ''t1'' \<notin> fst ` set (recorded [])
          \<and> (JStr ''t1'', JStr ''hello'') \<in> set (tool_results Some ?L)
          \<and> hash_key (fst (JStr ''t1'', JStr ''hello'')) = Inr (KStr ''t1'')
        \<longrightarrow> resolve ?tn (fst (JStr ''t1'', JStr ''hello'')) = hash_key (JStr ''Read'')"
    unfolding tn by blast
  from C[rule_format, of "(JStr ''t9'', JStr ''abc'')" "KStr ''t9''"]
  have c: "(JStr ''t9'', JStr ''abc'') \<in> set (tool_results Some ?L)
          \<and> hash_key (fst (JStr ''t9'', JStr ''abc'')) = Inr (KStr ''t9'')
          \<and> map_of ?tn (KStr ''t9'') = None
        \<longrightarrow> resolve ?tn (fst (JStr ''t9'', JStr ''abc'')) = Inr (KStr ''unknown'')"
    unfolding tn by blast
  from a have a': "size_of_results no_dumps ?tn (KStr ''Read'') (tool_results Some ?L) = \<lparr>count = 1, total_chars = 5\<rparr>"
    by (simp add: size_get_def init_stats_def)
  from b uses results have b': "resolve ?tn (JStr ''t1'') = hash_key (JStr ''Read'')"
    by (simp add: recorded_def)
  from c results have c': "resolve ?tn (JStr ''t9'') = Inr (KStr ''unknown'')"
    by simp
  from run uses results a' b' c' show ?thesis by simp
qed

text \<open>
  The claim as it was stated fails twice. A \<^verbatim>\<open>tool_use_id\<close> that is a JSON array is in
  no index, and looking it up at line 106 raises TypeError (unhashable). A
  \<^verbatim>\<open>tool_use\<close> block whose identifier is the empty string is not indexed (line 90), so
  the result that refers to it is attributed to \<^verbatim>\<open>unknown\<close>, not to its tool.
\<close>

theorem tool_result_not_attributed:
  "analyze_session Some no_dumps ''session.jsonl'' [tool_result_record (JList [JInt 1]) ''hello''] =
     Inl TypeError
   \<and> analyze_session Some no_dumps ''session.jsonl''
       [tool_result_record (JStr '''') ''hello'', tool_use_record ''Read'' (JStr '''')] =
     Inr ((init_stats ''session.jsonl'')
            \<lparr>messages := [(''user'', 1), (''assistant'', 1), (''system'', 0)],
             tool_calls := [(KStr ''Read'', 1)],
             tool_result_sizes := [(KStr ''unknown'', \<lparr>count = 1, total_chars = 5\<rparr>)],
             models := [(KStr ''unknown'', \<lparr>m_input = 0, m_output = 0, m_calls = 1\<rparr>)]\<rparr>)"
  by (simp add: pass_defs tool_use_record_def tool_result_record_def)

end
